theory Spec2Isabelle
  imports Main
begin

section \<open>Data model\<close>

text \<open>
  The three variants of the service: \<^verbatim>\<open>src/app.js\<close> (server-side session holding the
  user's id), \<^verbatim>\<open>src/server.js\<close> (signed token in a cookie) and
  \<^verbatim>\<open>src/unnamed/part_000\<close> (passport set up to serialize the whole user record, with
  neither \<^verbatim>\<open>express-session\<close> nor \<^verbatim>\<open>passport.session()\<close> mounted).
\<close>

datatype variant = SessionVariant | TokenVariant | SimpleVariant

text \<open>
  The Sequelize models. Every table has the surrogate key \<open>id\<close> that Sequelize adds;
  the foreign keys \<open>ownerId\<close> and \<open>giveawayId\<close> come from the associations and are
  nullable columns. \<open>referralCount\<close> is a JavaScript number stored in an INTEGER column.
\<close>

record User =
  user_id :: nat
  username :: string
  passwordHash :: string

record Giveaway =
  giveaway_id :: nat
  roomName :: string
  channelLink :: string
  code :: string
  referralCount :: int
  ownerId :: "nat option"

record Referral =
  referral_id :: nat
  referrerName :: string
  timestamp :: nat
  giveawayId :: "nat option"

record database =
  users :: "User list"
  giveaways :: "Giveaway list"
  referrals :: "Referral list"
  nextUserId :: nat
  nextGiveawayId :: nat
  nextReferralId :: nat

text \<open>
  A field of a form body parsed by \<^verbatim>\<open>bodyParser.urlencoded({ extended: true })\<close> is
  missing (\<open>None\<close>), a string, or a nested array or object.
\<close>

datatype form_value = Str string | Nested

text \<open>The signed token of the token variant, and the value of the \<^verbatim>\<open>jwt\<close> cookie.\<close>

record jwt =
  jwt_id :: nat
  jwt_username :: string
  jwt_iat :: nat
  jwt_exp :: nat
  jwt_signed_with :: string

datatype cookie = Garbage string | Encoded jwt

text \<open>What passport stores in the session for a logged-in user.\<close>

datatype serialized = SerId nat | SerUser User

type_synonym sessions = "string \<rightharpoonup> serialized"

record request =
  params_code :: string
  body :: "string \<rightharpoonup> form_value"
  sid_cookie :: "string option"
  jwt_cookie :: "cookie option"

section \<open>Environment, errors and responses\<close>

text \<open>
  A storage call can fail (connection lost, constraint violated, crash of the process
  at that point). \<open>fault\<close> names the storage call of one request that fails, if any.
\<close>

datatype fault = NoFault | FindFails | InsertFails | UpdateFails

text \<open>
  What one handler invocation reads from outside the program: the secret
  \<^verbatim>\<open>process.env.JWT_SECRET\<close>, the clock in whole seconds since the epoch, the fault
  scenario, the value \<^verbatim>\<open>DataTypes.UUIDV4\<close> generates and the session id
  express-session allocates.
\<close>

record env =
  JWT_SECRET :: string
  clock :: nat
  fault :: fault
  uuidv4 :: string
  new_sid :: string

datatype error =
    ValidationError
  | UniqueConstraintError
  | DatabaseError
  | ReferenceError string
  | JsonWebTokenError
  | TokenExpiredError
  | SessionSupportError

datatype view =
    Index "Giveaway list"
  | Dashboard "(Giveaway \<times> Referral list) list"
  | JoinForm Giveaway
  | CreateForm
  | LoginForm
  | SignupForm

text \<open>
  \<open>Raised e\<close>: the handler threw, or its promise was rejected, with \<open>e\<close> and sent no
  response. \<open>NextError e\<close>: the handler called \<^verbatim>\<open>next(e)\<close>.
\<close>

datatype response =
    Render view
  | Redirect string
  | Send nat string
  | NextError error
  | Raised error

fun is_http_response :: "response \<Rightarrow> bool" where
  "is_http_response (Raised e) = False"
| "is_http_response r = True"

section \<open>Storage operations\<close>

text \<open>\<^verbatim>\<open>!v\<close> on a form field: true for a missing field and for the empty string.\<close>

fun falsy :: "form_value option \<Rightarrow> bool" where
  "falsy None = True"
| "falsy (Some (Str s)) = (s = [])"
| "falsy (Some Nested) = False"

definition User_findOne :: "database \<Rightarrow> string \<Rightarrow> User option" where
  "User_findOne db name = find (\<lambda>u. username u = name) (users db)"

definition User_findByPk :: "database \<Rightarrow> nat \<Rightarrow> User option" where
  "User_findByPk db i = find (\<lambda>u. user_id u = i) (users db)"

definition Giveaway_findOne :: "database \<Rightarrow> string \<Rightarrow> Giveaway option" where
  "Giveaway_findOne db c = find (\<lambda>g. code g = c) (giveaways db)"

text \<open>
  \<^verbatim>\<open>Giveaway.create({ roomName, channelLink, ownerId })\<close>: \<open>roomName\<close> and
  \<open>channelLink\<close> are STRING columns with \<^verbatim>\<open>allowNull: false\<close>, \<open>code\<close> defaults to a
  generated UUID and is unique, \<open>referralCount\<close> defaults to 0.
\<close>

definition Giveaway_create ::
  "env \<Rightarrow> database \<Rightarrow> form_value option \<Rightarrow> form_value option \<Rightarrow> nat \<Rightarrow> error + database" where
  "Giveaway_create e db rn cl owner =
     (case rn of
        Some (Str r) \<Rightarrow>
          (case cl of
             Some (Str l) \<Rightarrow>
               if fault e = InsertFails then Inl DatabaseError
               else if uuidv4 e \<in> set (map code (giveaways db)) then Inl UniqueConstraintError
               else Inr (db\<lparr>giveaways := giveaways db @
                              [\<lparr>giveaway_id = nextGiveawayId db, roomName = r, channelLink = l,
                                code = uuidv4 e, referralCount = 0, ownerId = Some owner\<rparr>],
                            nextGiveawayId := nextGiveawayId db + 1\<rparr>)
           | _ \<Rightarrow> Inl ValidationError)
      | _ \<Rightarrow> Inl ValidationError)"

text \<open>
  \<^verbatim>\<open>Referral.create({ giveawayId, referrerName })\<close>: \<open>referrerName\<close> is a STRING column
  with \<^verbatim>\<open>allowNull: false\<close>, \<open>timestamp\<close> defaults to now.
\<close>

definition Referral_insert :: "env \<Rightarrow> database \<Rightarrow> nat \<Rightarrow> string \<Rightarrow> database" where
  "Referral_insert e db gid s =
     db\<lparr>referrals := referrals db @
          [\<lparr>referral_id = nextReferralId db, referrerName = s,
            timestamp = clock e, giveawayId = Some gid\<rparr>],
        nextReferralId := nextReferralId db + 1\<rparr>"

definition Referral_create ::
  "env \<Rightarrow> database \<Rightarrow> nat \<Rightarrow> form_value option \<Rightarrow> error + database" where
  "Referral_create e db gid name =
     (case name of
        Some (Str s) \<Rightarrow>
          if fault e = InsertFails then Inl DatabaseError
          else Inr (Referral_insert e db gid s)
      | _ \<Rightarrow> Inl ValidationError)"

text \<open>
  \<^verbatim>\<open>giveaway.save()\<close> after \<^verbatim>\<open>giveaway.referralCount++\<close>: one UPDATE that writes the
  changed field of the in-memory instance to the row with the instance's id.
\<close>

definition Giveaway_update :: "database \<Rightarrow> Giveaway \<Rightarrow> database" where
  "Giveaway_update db g =
     db\<lparr>giveaways :=
          map (\<lambda>h. if giveaway_id h = giveaway_id g
                   then h\<lparr>referralCount := referralCount g\<rparr> else h)
              (giveaways db)\<rparr>"

definition Giveaway_save :: "env \<Rightarrow> database \<Rightarrow> Giveaway \<Rightarrow> error + database" where
  "Giveaway_save e db g =
     (if fault e = UpdateFails then Inl DatabaseError else Inr (Giveaway_update db g))"

section \<open>The join protocol\<close>

text \<open>
  \<^verbatim>\<open>app.post('/giveaway/:code/join')\<close>. The guard on an empty name is in
  \<^verbatim>\<open>app.js\<close> and \<^verbatim>\<open>server.js\<close>, not in \<^verbatim>\<open>part_000\<close>. No handler catches a
  rejected storage call.
\<close>

definition post_join :: "variant \<Rightarrow> env \<Rightarrow> database \<Rightarrow> request \<Rightarrow> database \<times> response" where
  "post_join v e db req =
     (if fault e = FindFails then (db, Raised DatabaseError)
      else case Giveaway_findOne db (params_code req) of
        None \<Rightarrow> (db, Send 404 ''Giveaway not found.'')
      | Some giveaway \<Rightarrow>
          if v \<noteq> SimpleVariant \<and> falsy (body req ''referrerName'')
          then (db, Redirect (''/giveaway/'' @ params_code req @ ''/join''))
          else
            (case Referral_create e db (giveaway_id giveaway) (body req ''referrerName'') of
               Inl err \<Rightarrow> (db, Raised err)
             | Inr db1 \<Rightarrow>
                 let giveaway' = giveaway\<lparr>referralCount := referralCount giveaway + 1\<rparr>
                 in (case Giveaway_save e db1 giveaway' of
                       Inl err \<Rightarrow> (db1, Raised err)
                     | Inr db2 \<Rightarrow> (db2, Redirect (channelLink giveaway')))))"

text \<open>Join requests handled one after another, each with its own environment.\<close>

fun run_joins :: "variant \<Rightarrow> database \<Rightarrow> (env \<times> request) list \<Rightarrow> database" where
  "run_joins v db [] = db"
| "run_joins v db ((e, req) # rest) = run_joins v (fst (post_join v e db req)) rest"

text \<open>
  A join request is admissible when its code resolves and its name passes the guard and
  the model validation; an admissible request succeeds, that is, runs to the final
  redirect, when no storage call fails.
\<close>

definition name_admissible :: "variant \<Rightarrow> request \<Rightarrow> bool" where
  "name_admissible v req =
     (case body req ''referrerName'' of
        Some (Str s) \<Rightarrow> v = SimpleVariant \<or> s \<noteq> []
      | _ \<Rightarrow> False)"

definition join_admissible :: "variant \<Rightarrow> database \<Rightarrow> request \<Rightarrow> bool" where
  "join_admissible v db req =
     (Giveaway_findOne db (params_code req) \<noteq> None \<and> name_admissible v req)"

definition join_succeeds :: "variant \<Rightarrow> env \<Rightarrow> database \<Rightarrow> request \<Rightarrow> bool" where
  "join_succeeds v e db req = (fault e = NoFault \<and> join_admissible v db req)"

fun all_joins_succeed :: "variant \<Rightarrow> database \<Rightarrow> (env \<times> request) list \<Rightarrow> bool" where
  "all_joins_succeed v db [] = True"
| "all_joins_succeed v db ((e, req) # rest) =
     (join_succeeds v e db req \<and> all_joins_succeed v (fst (post_join v e db req)) rest)"

text \<open>The Referral rows of a giveaway, and the invariant of the data model.\<close>

definition referrals_of :: "database \<Rightarrow> nat \<Rightarrow> Referral list" where
  "referrals_of db gid = filter (\<lambda>r. giveawayId r = Some gid) (referrals db)"

definition count_consistent :: "database \<Rightarrow> bool" where
  "count_consistent db =
     list_all (\<lambda>g. referralCount g = int (length (referrals_of db (giveaway_id g))))
       (giveaways db)"

section \<open>Identity: issuing and resolving\<close>

text \<open>
  The verify callback given to \<^verbatim>\<open>LocalStrategy\<close>, with the password comparison
  \<^verbatim>\<open>bcrypt.compare\<close> as a parameter. The third argument of \<^verbatim>\<open>done\<close> is the info
  message.
\<close>

datatype verify_result = Done_error error | Done_fail string | Done_user User

definition LocalStrategy_verify ::
  "env \<Rightarrow> (string \<Rightarrow> string \<Rightarrow> bool) \<Rightarrow> database \<Rightarrow> string \<Rightarrow> string \<Rightarrow> verify_result" where
  "LocalStrategy_verify e bcrypt_compare db uname password =
     (if fault e = FindFails then Done_error DatabaseError
      else case User_findOne db uname of
        None \<Rightarrow> Done_fail ''Incorrect username.''
      | Some user \<Rightarrow>
          if \<not> bcrypt_compare password (passwordHash user)
          then Done_fail ''Incorrect password.''
          else Done_user user)"

text \<open>
  \<^verbatim>\<open>passport.authenticate('local', ...)\<close>: the strategy fails before the verify callback
  when a credential is empty, and runs the callback otherwise.
\<close>

definition passport_authenticate ::
  "env \<Rightarrow> (string \<Rightarrow> string \<Rightarrow> bool) \<Rightarrow> database \<Rightarrow> string \<Rightarrow> string \<Rightarrow> verify_result" where
  "passport_authenticate e bcrypt_compare db uname password =
     (if uname = [] \<or> password = [] then Done_fail ''Missing credentials''
      else LocalStrategy_verify e bcrypt_compare db uname password)"

text \<open>
  Modelled from the spec: \<^verbatim>\<open>jwt.sign\<close> is called by \<^verbatim>\<open>src/server.js\<close> and
  belongs to the package jsonwebtoken, which is not under \<^verbatim>\<open>src/\<close>. The spec: the
  issuer constructs a signed payload embedding id, username, issue time and a fixed
  expiry, signed with a server-held secret; the resolver verifies the signature and the
  expiry, and a token that is invalid or expired resolves to no identity. A signature is
  symbolic: the token records the secret it was signed with. Times are whole seconds.
\<close>

definition jwt_sign :: "nat \<Rightarrow> string \<Rightarrow> string \<Rightarrow> nat \<Rightarrow> nat \<Rightarrow> jwt" where
  "jwt_sign i uname secret expiresIn now =
     \<lparr>jwt_id = i, jwt_username = uname, jwt_iat = now, jwt_exp = now + expiresIn,
      jwt_signed_with = secret\<rparr>"

text \<open>
  Modelled from the spec: \<^verbatim>\<open>jwt.verify\<close> of the package jsonwebtoken, which is not
  under \<^verbatim>\<open>src/\<close>. A cookie that is no token, or a token signed with another secret, is
  invalid; a token whose expiry has been reached is expired.
\<close>

fun jwt_verify :: "cookie \<Rightarrow> string \<Rightarrow> nat \<Rightarrow> error + jwt" where
  "jwt_verify (Garbage s) secret now = Inl JsonWebTokenError"
| "jwt_verify (Encoded t) secret now =
     (if jwt_signed_with t \<noteq> secret then Inl JsonWebTokenError
      else if jwt_exp t \<le> now then Inl TokenExpiredError
      else Inr t)"

text \<open>
  The callbacks given to \<^verbatim>\<open>passport.serializeUser\<close> and
  \<^verbatim>\<open>passport.deserializeUser\<close> in \<^verbatim>\<open>app.js\<close> and in \<^verbatim>\<open>part_000\<close>. Passport
  calls them when it writes a user to a session and reads one back.
\<close>

fun serializeUser :: "variant \<Rightarrow> User \<Rightarrow> serialized" where
  "serializeUser SimpleVariant user = SerUser user"
| "serializeUser v user = SerId (user_id user)"

fun deserializeUser :: "env \<Rightarrow> database \<Rightarrow> serialized \<Rightarrow> error + User option" where
  "deserializeUser e db (SerId i) =
     (if fault e = FindFails then Inl DatabaseError else Inr (User_findByPk db i))"
| "deserializeUser e db (SerUser user) = Inr (Some user)"

datatype set_cookie = SessionCookie string | JwtCookie cookie

text \<open>
  \<^verbatim>\<open>app.post('/login')\<close>. \<^verbatim>\<open>app.js\<close> and \<^verbatim>\<open>part_000\<close> redirect to
  \<^verbatim>\<open>failureRedirect\<close>, or log the user in and redirect to \<^verbatim>\<open>successRedirect\<close>; the
  token variant's callback redirects when there is no user and otherwise signs a token
  that expires in one hour. Logging in writes the serialized user to the request's
  session. \<^verbatim>\<open>part_000\<close> mounts no session middleware, so there the request has no
  session: the login binds nothing, sets no cookie and passes the error of
  \<^verbatim>\<open>req.logIn\<close> to \<^verbatim>\<open>next\<close>.
\<close>

definition post_login ::
  "variant \<Rightarrow> env \<Rightarrow> (string \<Rightarrow> string \<Rightarrow> bool) \<Rightarrow> sessions \<Rightarrow> database \<Rightarrow> string \<Rightarrow> string
     \<Rightarrow> sessions \<times> response \<times> set_cookie option" where
  "post_login v e bcrypt_compare ss db uname password =
     (case passport_authenticate e bcrypt_compare db uname password of
        Done_error err \<Rightarrow> (ss, NextError err, None)
      | Done_fail info \<Rightarrow> (ss, Redirect ''/login'', None)
      | Done_user user \<Rightarrow>
          if v = TokenVariant
          then (ss, Redirect ''/dashboard'',
                Some (JwtCookie (Encoded
                  (jwt_sign (user_id user) (username user) (JWT_SECRET e) 3600 (clock e)))))
          else if v = SimpleVariant
          then (ss, NextError SessionSupportError, None)
          else (ss(new_sid e \<mapsto> serializeUser v user), Redirect ''/dashboard'',
                Some (SessionCookie (new_sid e))))"

text \<open>
  \<^verbatim>\<open>passport.session()\<close>, mounted in \<^verbatim>\<open>app.js\<close> only: the user of the request's
  session, if any.
\<close>

definition passport_session ::
  "env \<Rightarrow> sessions \<Rightarrow> database \<Rightarrow> request \<Rightarrow> error + User option" where
  "passport_session e ss db req =
     (case sid_cookie req of
        None \<Rightarrow> Inr None
      | Some sid \<Rightarrow>
          (case ss sid of
             None \<Rightarrow> Inr None
           | Some ser \<Rightarrow> deserializeUser e db ser))"

definition ensureAuthenticated :: "User option \<Rightarrow> response + User" where
  "ensureAuthenticated req_user =
     (case req_user of Some user \<Rightarrow> Inr user | None \<Rightarrow> Inl (Redirect ''/login''))"

definition authenticateJWT :: "env \<Rightarrow> request \<Rightarrow> response + jwt" where
  "authenticateJWT e req =
     (case jwt_cookie req of
        Some token \<Rightarrow>
          (case jwt_verify token (JWT_SECRET e) (clock e) of
             Inl err \<Rightarrow> Inl (Redirect ''/login'')
           | Inr decoded \<Rightarrow> Inr decoded)
      | None \<Rightarrow> Inl (Redirect ''/login''))"

text \<open>
  \<^verbatim>\<open>req.user\<close> when \<^verbatim>\<open>ensureAuthenticated\<close> runs: what \<^verbatim>\<open>passport.session()\<close>
  found in \<^verbatim>\<open>app.js\<close>, and nothing in \<^verbatim>\<open>part_000\<close>, where no middleware sets it.
\<close>

definition request_user ::
  "variant \<Rightarrow> env \<Rightarrow> sessions \<Rightarrow> database \<Rightarrow> request \<Rightarrow> error + User option" where
  "request_user v e ss db req =
     (if v = SimpleVariant then Inr None else passport_session e ss db req)"

text \<open>
  The middleware in front of an owner-only route: the response it sends itself, or
  \<^verbatim>\<open>req.user.id\<close> for the handler.
\<close>

definition resolve_identity ::
  "variant \<Rightarrow> env \<Rightarrow> sessions \<Rightarrow> database \<Rightarrow> request \<Rightarrow> response + nat" where
  "resolve_identity v e ss db req =
     (if v = TokenVariant
      then (case authenticateJWT e req of
              Inl r \<Rightarrow> Inl r
            | Inr decoded \<Rightarrow> Inr (jwt_id decoded))
      else (case request_user v e ss db req of
              Inl err \<Rightarrow> Inl (NextError err)
            | Inr req_user \<Rightarrow>
                (case ensureAuthenticated req_user of
                   Inl r \<Rightarrow> Inl r
                 | Inr user \<Rightarrow> Inr (user_id user))))"

section \<open>Owner-only operations\<close>

text \<open>
  \<^verbatim>\<open>Giveaway.findAll({ where: { ownerId }, include: [referrals] })\<close>: the giveaways of an
  owner, each with its Referral rows.
\<close>

definition Giveaway_findAll_owned :: "database \<Rightarrow> nat \<Rightarrow> (Giveaway \<times> Referral list) list" where
  "Giveaway_findAll_owned db uid =
     map (\<lambda>g. (g, referrals_of db (giveaway_id g)))
         (filter (\<lambda>g. ownerId g = Some uid) (giveaways db))"

definition get_dashboard ::
  "variant \<Rightarrow> env \<Rightarrow> sessions \<Rightarrow> database \<Rightarrow> request \<Rightarrow> response" where
  "get_dashboard v e ss db req =
     (case resolve_identity v e ss db req of
        Inl r \<Rightarrow> r
      | Inr uid \<Rightarrow>
          if fault e = FindFails then Raised DatabaseError
          else Render (Dashboard (Giveaway_findAll_owned db uid)))"

text \<open>
  \<^verbatim>\<open>app.post('/create-giveaway')\<close>. \<^verbatim>\<open>app.js\<close> and \<^verbatim>\<open>server.js\<close> catch a failed
  create and redirect to the form; \<^verbatim>\<open>part_000\<close> has no handler for it.
\<close>

definition post_create_giveaway ::
  "variant \<Rightarrow> env \<Rightarrow> sessions \<Rightarrow> database \<Rightarrow> request \<Rightarrow> database \<times> response" where
  "post_create_giveaway v e ss db req =
     (case resolve_identity v e ss db req of
        Inl r \<Rightarrow> (db, r)
      | Inr uid \<Rightarrow>
          (case Giveaway_create e db (body req ''roomName'') (body req ''channelLink'') uid of
             Inl err \<Rightarrow>
               (db, if v = SimpleVariant then Raised err else Redirect ''/create-giveaway'')
           | Inr db' \<Rightarrow> (db', Redirect ''/dashboard'')))"

section \<open>Logout in the session variant\<close>

text \<open>
  The identifiers bound at the top level of \<^verbatim>\<open>src/app.js\<close>, with the ones Node
  provides to the module that the file mentions.
\<close>

definition module_scope :: "string list" where
  "module_scope =
     [''express'', ''session'', ''bodyParser'', ''Sequelize'', ''DataTypes'', ''passport'',
      ''LocalStrategy'', ''bcrypt'', ''app'', ''sequelize'', ''User'', ''Giveaway'',
      ''Referral'', ''ensureAuthenticated'', ''require'', ''process'', ''console'']"

text \<open>Reading an identifier that no enclosing scope binds throws a ReferenceError.\<close>

definition lookup_identifier :: "string list \<Rightarrow> string \<Rightarrow> error + string" where
  "lookup_identifier scope x = (if x \<in> set scope then Inr x else Inl (ReferenceError x))"

text \<open>
  \<^verbatim>\<open>app.get('/logout', (req, res) => { req.logout(err => { ... }) })\<close>: the callback
  of \<^verbatim>\<open>req.logout\<close> is given the error, if any. Its scope is its own parameter, the
  handler's two parameters and the module's bindings.
\<close>

definition get_logout :: "error option \<Rightarrow> response" where
  "get_logout logout_err =
     (case logout_err of
        Some err \<Rightarrow>
          (case lookup_identifier (''err'' # ''req'' # ''res'' # module_scope) ''next'' of
             Inl thrown \<Rightarrow> Raised thrown
           | Inr next_fn \<Rightarrow> NextError err)
      | None \<Rightarrow> Redirect ''/'')"

section \<open>Concurrent joins\<close>

text \<open>
  A join handler is suspended at each \<^verbatim>\<open>await\<close>, and handlers of other requests run
  in between. The storage engine runs each query on its own: the SELECT of
  \<^verbatim>\<open>findOne\<close>, the INSERT of \<^verbatim>\<open>Referral.create\<close> and the UPDATE of
  \<^verbatim>\<open>giveaway.save()\<close>. A handler between two queries holds its in-memory instance
  \<^verbatim>\<open>giveaway\<close>.
\<close>

datatype join_pc =
    Received
  | Loaded Giveaway
  | Inserted Giveaway
  | Finished response

fun join_step :: "variant \<Rightarrow> env \<Rightarrow> request \<Rightarrow> database \<Rightarrow> join_pc \<Rightarrow> database \<times> join_pc" where
  "join_step v e req db Received =
     (if fault e = FindFails then (db, Finished (Raised DatabaseError))
      else case Giveaway_findOne db (params_code req) of
        None \<Rightarrow> (db, Finished (Send 404 ''Giveaway not found.''))
      | Some giveaway \<Rightarrow>
          if v \<noteq> SimpleVariant \<and> falsy (body req ''referrerName'')
          then (db, Finished (Redirect (''/giveaway/'' @ params_code req @ ''/join'')))
          else (db, Loaded giveaway))"
| "join_step v e req db (Loaded giveaway) =
     (case Referral_create e db (giveaway_id giveaway) (body req ''referrerName'') of
        Inl err \<Rightarrow> (db, Finished (Raised err))
      | Inr db1 \<Rightarrow> (db1, Inserted giveaway))"
| "join_step v e req db (Inserted giveaway) =
     (let giveaway' = giveaway\<lparr>referralCount := referralCount giveaway + 1\<rparr>
      in case Giveaway_save e db giveaway' of
           Inl err \<Rightarrow> (db, Finished (Raised err))
         | Inr db2 \<Rightarrow> (db2, Finished (Redirect (channelLink giveaway'))))"
| "join_step v e req db (Finished r) = (db, Finished r)"

text \<open>
  The requests in flight, each with its environment and its program point; a schedule
  names, step by step, the request whose next query runs.
\<close>

type_synonym task = "env \<times> request \<times> join_pc"

definition step_task :: "variant \<Rightarrow> database \<times> task list \<Rightarrow> nat \<Rightarrow> database \<times> task list" where
  "step_task v s i =
     (case s of (db, ts) \<Rightarrow>
        if i < length ts
        then (case ts ! i of (e, req, pc) \<Rightarrow>
                (case join_step v e req db pc of (db', pc') \<Rightarrow> (db', ts[i := (e, req, pc')])))
        else (db, ts))"

definition run_schedule ::
  "variant \<Rightarrow> database \<times> task list \<Rightarrow> nat list \<Rightarrow> database \<times> task list" where
  "run_schedule v s sched = foldl (step_task v) s sched"

fun is_finished :: "task \<Rightarrow> bool" where
  "is_finished (e, req, Finished r) = True"
| "is_finished (e, req, pc) = False"

text \<open>\<open>n\<close> requests that have just arrived.\<close>

definition arrivals :: "(env \<times> request) list \<Rightarrow> task list" where
  "arrivals reqs = map (\<lambda>(e, req). (e, req, Received)) reqs"

text \<open>The schedule that runs the requests one after another, three queries each.\<close>

definition serial_schedule :: "nat \<Rightarrow> nat list" where
  "serial_schedule n = concat (map (\<lambda>i. [i, i, i]) [0..<n])"

text \<open>The schedule in which every request runs its SELECT, then every request its
  INSERT, then every request its UPDATE.\<close>

definition overlapping_schedule :: "nat \<Rightarrow> nat list" where
  "overlapping_schedule n = [0..<n] @ [0..<n] @ [0..<n]"

section \<open>Invariant of concurrent joins\<close>

text \<open>
  The state of concurrent joins against one code \<open>c\<close>, where \<open>g\<close> is the row the
  code resolved to before any of them ran and \<open>r0\<close> the number of its Referral rows
  then. A request has inserted when its INSERT has run, and is finished when its
  response is sent.
\<close>

fun has_inserted :: "task \<Rightarrow> bool" where
  "has_inserted (e, req, Inserted giveaway) = True"
| "has_inserted (e, req, Finished r) = True"
| "has_inserted (e, req, pc) = False"

text \<open>A counter value that \<open>k\<close> finished requests can have produced from the row \<open>g\<close>.\<close>

definition in_range :: "Giveaway \<Rightarrow> nat \<Rightarrow> int \<Rightarrow> bool" where
  "in_range g k x = (referralCount g \<le> x \<and> x \<le> referralCount g + int k)"

fun pc_inv :: "Giveaway \<Rightarrow> nat \<Rightarrow> join_pc \<Rightarrow> bool" where
  "pc_inv g k Received = True"
| "pc_inv g k (Loaded giveaway) =
     (giveaway = g\<lparr>referralCount := referralCount giveaway\<rparr> \<and>
      in_range g k (referralCount giveaway))"
| "pc_inv g k (Inserted giveaway) =
     (giveaway = g\<lparr>referralCount := referralCount giveaway\<rparr> \<and>
      in_range g k (referralCount giveaway))"
| "pc_inv g k (Finished r) = (r = Redirect (channelLink g))"

definition task_inv :: "variant \<Rightarrow> string \<Rightarrow> Giveaway \<Rightarrow> nat \<Rightarrow> task \<Rightarrow> bool" where
  "task_inv v c g k t =
     (case t of (e, req, pc) \<Rightarrow>
        fault e = NoFault \<and> params_code req = c \<and> name_admissible v req \<and> pc_inv g k pc)"

definition join_inv ::
  "variant \<Rightarrow> string \<Rightarrow> Giveaway \<Rightarrow> nat \<Rightarrow> database \<times> task list \<Rightarrow> bool" where
  "join_inv v c g r0 s =
     (case s of (db, ts) \<Rightarrow>
        (case Giveaway_findOne db c of
           None \<Rightarrow> False
         | Some row \<Rightarrow>
             row = g\<lparr>referralCount := referralCount row\<rparr> \<and>
             in_range g (length (filter is_finished ts)) (referralCount row) \<and>
             (1 \<le> length (filter is_finished ts) \<longrightarrow>
                referralCount g + 1 \<le> referralCount row)) \<and>
        list_all (task_inv v c g (length (filter is_finished ts))) ts \<and>
        length (referrals_of db (giveaway_id g)) = r0 + length (filter has_inserted ts))"

text \<open>
  The Referral table \<open>db\<close> is the table of \<open>db0\<close> followed by new rows, each carrying
  the name \<open>s\<close> and the id of the giveaway \<open>g\<close>, with consecutive ids from the next id
  of \<open>db0\<close> on.
\<close>

definition appended_rows :: "string \<Rightarrow> Giveaway \<Rightarrow> database \<Rightarrow> database \<Rightarrow> bool" where
  "appended_rows s g db0 db =
     (let new = drop (length (referrals db0)) (referrals db) in
        take (length (referrals db0)) (referrals db) = referrals db0 \<and>
        list_all (\<lambda>r. referrerName r = s \<and> giveawayId r = Some (giveaway_id g)) new \<and>
        map referral_id new = [nextReferralId db0..<nextReferralId db0 + length new] \<and>
        nextReferralId db = nextReferralId db0 + length new)"

section \<open>Example data\<close>

text \<open>A small database, an environment and requests, used to run the model.\<close>

definition alice :: User where
  "alice = \<lparr>user_id = 1, username = ''alice'', passwordHash = ''hash:pw1''\<rparr>"

definition bob :: User where
  "bob = \<lparr>user_id = 2, username = ''bob'', passwordHash = ''hash:pw2''\<rparr>"

definition example_compare :: "string \<Rightarrow> string \<Rightarrow> bool" where
  "example_compare password digest = (digest = ''hash:'' @ password)"

definition room_a :: Giveaway where
  "room_a = \<lparr>giveaway_id = 1, roomName = ''Room A'', channelLink = ''https://t.me/room_a'',
             code = ''c1'', referralCount = 0, ownerId = Some 1\<rparr>"

definition room_b :: Giveaway where
  "room_b = \<lparr>giveaway_id = 2, roomName = ''Room B'', channelLink = ''https://t.me/room_b'',
             code = ''c2'', referralCount = 0, ownerId = Some 2\<rparr>"

definition example_db :: database where
  "example_db =
     \<lparr>users = [alice, bob], giveaways = [room_a, room_b], referrals = [],
      nextUserId = 3, nextGiveawayId = 3, nextReferralId = 1\<rparr>"

definition example_env :: env where
  "example_env =
     \<lparr>JWT_SECRET = ''secret'', clock = 1000, fault = NoFault, uuidv4 = ''c3'',
      new_sid = ''sid1''\<rparr>"

text \<open>A join request for the code of Room A, from an anonymous visitor.\<close>

definition join_request :: "form_value option \<Rightarrow> request" where
  "join_request name =
     \<lparr>params_code = ''c1'', body = Map.empty(''referrerName'' := name),
      sid_cookie = None, jwt_cookie = None\<rparr>"

text \<open>A request carrying the token issued to alice at time 1000.\<close>

definition alice_token_request :: "request" where
  "alice_token_request =
     \<lparr>params_code = [], body = Map.empty, sid_cookie = None,
      jwt_cookie = Some (Encoded (jwt_sign 1 ''alice'' ''secret'' 3600 1000))\<rparr>"

text \<open>The same visitor name submitted twice against the code of Room A.\<close>

definition two_joins :: "(env \<times> request) list" where
  "two_joins = [(example_env, join_request (Some (Str ''bob''))),
                (example_env\<lparr>clock := 1060\<rparr>, join_request (Some (Str ''bob'')))]"



text \<open>
  A session in which alice is logged in, and her request to create a giveaway; the body
  also carries an \<^verbatim>\<open>ownerId\<close> field naming bob.
\<close>

definition example_sessions :: sessions where
  "example_sessions = Map.empty(''sid0'' \<mapsto> SerId 1)"

definition create_request :: "form_value option \<Rightarrow> form_value option \<Rightarrow> request" where
  "create_request rn cl =
     \<lparr>params_code = [],
      body = Map.empty(''roomName'' := rn, ''channelLink'' := cl, ''ownerId'' \<mapsto> Str ''2''),
      sid_cookie = Some ''sid0'', jwt_cookie = None\<rparr>"

text \<open>Her request for the dashboard.\<close>

definition dashboard_request :: request where
  "dashboard_request =
     \<lparr>params_code = [], body = Map.empty, sid_cookie = Some ''sid0'', jwt_cookie = None\<rparr>"

text \<open>
  The database after bob and dave have joined Room A and carol has joined Room B.
\<close>

definition bob_row :: Referral where
  "bob_row = \<lparr>referral_id = 1, referrerName = ''bob'', timestamp = 1000, giveawayId = Some 1\<rparr>"

definition carol_row :: Referral where
  "carol_row =
     \<lparr>referral_id = 2, referrerName = ''carol'', timestamp = 1010, giveawayId = Some 2\<rparr>"

definition dave_row :: Referral where
  "dave_row = \<lparr>referral_id = 3, referrerName = ''dave'', timestamp = 1020, giveawayId = Some 1\<rparr>"

definition busy_db :: database where
  "busy_db =
     \<lparr>users = [alice, bob],
      giveaways = [room_a\<lparr>referralCount := 2\<rparr>, room_b\<lparr>referralCount := 1\<rparr>],
      referrals = [bob_row, carol_row, dave_row],
      nextUserId = 3, nextGiveawayId = 3, nextReferralId = 4\<rparr>"

text \<open>Fifty join requests for the code of Room A.\<close>

definition fifty_joins :: "(env \<times> request) list" where
  "fifty_joins = replicate 50 (example_env, join_request (Some (Str ''bob'')))"

section \<open>Login\<close>

lemma post_login_no_user:
  assumes "fault e \<noteq> FindFails" and "User_findOne db uname = None"
  shows "post_login v e cmp ss db uname password = (ss, Redirect ''/login'', None)"
  using assms
  by (simp add: post_login_def passport_authenticate_def LocalStrategy_verify_def)

lemma post_login_wrong_password:
  assumes "fault e \<noteq> FindFails" and "User_findOne db uname = Some user"
    and "\<not> cmp password (passwordHash user)"
  shows "post_login v e cmp ss db uname password = (ss, Redirect ''/login'', None)"
  using assms
  by (simp add: post_login_def passport_authenticate_def LocalStrategy_verify_def)

text \<open>
  C6: in every variant, a login whose username matches no user and a login whose
  username exists but whose password fails verification have the same outcome: the
  redirect to \<^verbatim>\<open>/login\<close>, the session store unchanged and no cookie set. The info
  message of the verify callback, which tells the two apart, reaches no response.
\<close>

theorem login_failures_indistinguishable:
  assumes "fault e \<noteq> FindFails"
    and "User_findOne db uname_a = None"
    and "User_findOne db uname_b = Some user"
    and "\<not> cmp password_b (passwordHash user)"
  shows "post_login v e cmp ss db uname_a password_a =
           post_login v e cmp ss db uname_b password_b \<and>
         post_login v e cmp ss db uname_a password_a = (ss, Redirect ''/login'', None)"
  using assms post_login_no_user post_login_wrong_password by metis

theorem login_failures_indistinguishable_witness:
  "fault example_env \<noteq> FindFails \<and>
   User_findOne example_db ''carol'' = None \<and>
   User_findOne example_db ''alice'' = Some alice \<and>
   \<not> example_compare ''wrong'' (passwordHash alice) \<and>
   post_login SessionVariant example_env example_compare Map.empty example_db ''carol'' ''pw1'' =
     post_login SessionVariant example_env example_compare Map.empty example_db ''alice'' ''wrong'' \<and>
   post_login SessionVariant example_env example_compare Map.empty example_db ''carol'' ''pw1'' =
     (Map.empty, Redirect ''/login'', None)"
proof -
  have h1: "fault example_env \<noteq> FindFails" by (simp add: example_env_def)
  have h2: "User_findOne example_db ''carol'' = None"
    by (simp add: User_findOne_def example_db_def alice_def bob_def)
  have h3: "User_findOne example_db ''alice'' = Some alice"
    by (simp add: User_findOne_def example_db_def alice_def bob_def)
  have h4: "\<not> example_compare ''wrong'' (passwordHash alice)"
    by (simp add: example_compare_def alice_def)
  show ?thesis
    using h1 h2 h3 h4
      login_failures_indistinguishable [where cmp = example_compare and password_b = "''wrong''"
        and v = SessionVariant and ss = Map.empty and password_a = "''pw1''", OF h1 h2 h3 h4]
    by blast
qed

section \<open>Logout\<close>

text \<open>
  C10: in the session variant's logout handler, when \<^verbatim>\<open>req.logout\<close> reports an error
  the callback reads the identifier \<^verbatim>\<open>next\<close>, which no enclosing scope binds: the
  handler raises a ReferenceError and sends no HTTP response. Without an error it
  redirects to the main page.
\<close>

theorem logout_error_raises_reference_error:
  "get_logout (Some err) = Raised (ReferenceError ''next'') \<and>
   \<not> is_http_response (get_logout (Some err)) \<and>
   get_logout None = Redirect ''/''"
  by (simp add: get_logout_def lookup_identifier_def module_scope_def)

section \<open>Token expiry\<close>

lemma post_login_token:
  assumes "post_login TokenVariant e cmp ss db uname password = (ss', r, Some (JwtCookie c))"
  shows "\<exists>user::User. c = Encoded (jwt_sign (user_id user) (username user) (JWT_SECRET e) 3600 (clock e))"
proof (cases "passport_authenticate e cmp db uname password")
  case (Done_user user)
  with assms show ?thesis
    by (intro exI [of _ user]) (simp add: post_login_def)
qed (use assms in \<open>simp_all add: post_login_def\<close>)

lemma authenticateJWT_issued:
  assumes "jwt_cookie req = Some (Encoded (jwt_sign i n (JWT_SECRET e) 3600 (clock e)))"
  shows "authenticateJWT (e\<lparr>clock := t\<rparr>) req =
           (if t < clock e + 3600 then Inr (jwt_sign i n (JWT_SECRET e) 3600 (clock e))
            else Inl (Redirect ''/login''))"
  using assms by (simp add: authenticateJWT_def jwt_sign_def)

text \<open>
  C7: in the token variant, the token that a successful login issues at time \<open>T\<close>
  expires at \<open>T\<close> plus one hour. The resolver accepts it at \<open>T\<close> plus 59 minutes,
  redirects to \<^verbatim>\<open>/login\<close> at \<open>T\<close> plus 61 minutes, and at any time \<open>t\<close> accepts it
  exactly when \<open>t\<close> is before the expiry.
\<close>

theorem token_accepted_until_expiry:
  assumes "post_login TokenVariant e cmp ss db uname password = (ss', r, Some (JwtCookie c))"
    and "jwt_cookie req = Some c"
  shows "\<exists>token. c = Encoded token \<and> jwt_exp token = clock e + 3600 \<and>
           authenticateJWT (e\<lparr>clock := clock e + 59 * 60\<rparr>) req = Inr token \<and>
           authenticateJWT (e\<lparr>clock := clock e + 61 * 60\<rparr>) req = Inl (Redirect ''/login'') \<and>
           (\<forall>t. authenticateJWT (e\<lparr>clock := t\<rparr>) req =
                  (if t < clock e + 3600 then Inr token else Inl (Redirect ''/login'')))"
proof -
  from post_login_token [OF assms(1)] obtain user :: User where
    c: "c = Encoded (jwt_sign (user_id user) (username user) (JWT_SECRET e) 3600 (clock e))"
    by blast
  let ?token = "jwt_sign (user_id user) (username user) (JWT_SECRET e) 3600 (clock e)"
  have cookie: "jwt_cookie req = Some (Encoded ?token)"
    using assms(2) c by simp
  have "jwt_exp ?token = clock e + 3600"
    by (simp add: jwt_sign_def)
  moreover have "authenticateJWT (e\<lparr>clock := clock e + 59 * 60\<rparr>) req = Inr ?token"
    using authenticateJWT_issued [OF cookie, of "clock e + 59 * 60"] by simp
  moreover have "authenticateJWT (e\<lparr>clock := clock e + 61 * 60\<rparr>) req = Inl (Redirect ''/login'')"
    using authenticateJWT_issued [OF cookie, of "clock e + 61 * 60"] by simp
  moreover have "\<forall>t. authenticateJWT (e\<lparr>clock := t\<rparr>) req =
                  (if t < clock e + 3600 then Inr ?token else Inl (Redirect ''/login''))"
    using authenticateJWT_issued [OF cookie] by blast
  ultimately show ?thesis using c by blast
qed

theorem token_accepted_until_expiry_witness:
  "post_login TokenVariant example_env example_compare Map.empty example_db ''alice'' ''pw1'' =
     (Map.empty, Redirect ''/dashboard'', Some (JwtCookie (Encoded (jwt_sign 1 ''alice'' ''secret'' 3600 1000)))) \<and>
   jwt_cookie alice_token_request = Some (Encoded (jwt_sign 1 ''alice'' ''secret'' 3600 1000)) \<and>
   authenticateJWT (example_env\<lparr>clock := 1000 + 59 * 60\<rparr>) alice_token_request =
     Inr (jwt_sign 1 ''alice'' ''secret'' 3600 1000) \<and>
   authenticateJWT (example_env\<lparr>clock := 1000 + 61 * 60\<rparr>) alice_token_request =
     Inl (Redirect ''/login'') \<and>
   authenticateJWT (example_env\<lparr>clock := 4599\<rparr>) alice_token_request =
     Inr (jwt_sign 1 ''alice'' ''secret'' 3600 1000) \<and>
   authenticateJWT (example_env\<lparr>clock := 4600\<rparr>) alice_token_request =
     Inl (Redirect ''/login'')"
proof -
  have h1: "post_login TokenVariant example_env example_compare Map.empty example_db ''alice'' ''pw1'' =
     (Map.empty, Redirect ''/dashboard'', Some (JwtCookie (Encoded (jwt_sign 1 ''alice'' ''secret'' 3600 1000))))"
    by (simp add: post_login_def passport_authenticate_def LocalStrategy_verify_def
        User_findOne_def example_db_def example_env_def example_compare_def alice_def bob_def)
  have h2: "jwt_cookie alice_token_request = Some (Encoded (jwt_sign 1 ''alice'' ''secret'' 3600 1000))"
    by (simp add: alice_token_request_def)
  have clk: "clock example_env = 1000" by (simp add: example_env_def)
  from token_accepted_until_expiry [OF h1 h2] obtain token where
    t: "Encoded (jwt_sign 1 ''alice'' ''secret'' 3600 1000) = Encoded token"
    and a59: "authenticateJWT (example_env\<lparr>clock := clock example_env + 59 * 60\<rparr>) alice_token_request = Inr token"
    and a61: "authenticateJWT (example_env\<lparr>clock := clock example_env + 61 * 60\<rparr>) alice_token_request = Inl (Redirect ''/login'')"
    and all: "\<forall>t. authenticateJWT (example_env\<lparr>clock := t\<rparr>) alice_token_request =
                  (if t < clock example_env + 3600 then Inr token else Inl (Redirect ''/login''))"
    by blast
  from t have tok: "token = jwt_sign 1 ''alice'' ''secret'' 3600 1000" by simp
  have "authenticateJWT (example_env\<lparr>clock := 4599\<rparr>) alice_token_request = Inr token"
    using all clk by simp
  moreover have "authenticateJWT (example_env\<lparr>clock := 4600\<rparr>) alice_token_request = Inl (Redirect ''/login'')"
    using all clk by simp
  ultimately show ?thesis using h1 h2 a59 a61 tok clk by simp
qed

section \<open>The join protocol, one request at a time\<close>

lemma find_map_preserving:
  assumes "\<And>x. P (f x) = P x"
  shows "find P (map f xs) = map_option f (find P xs)"
  using assms by (induction xs) auto

lemma Giveaway_findOne_in_table:
  assumes "Giveaway_findOne db c = Some g"
  shows "g \<in> set (giveaways db) \<and> code g = c"
  using assms unfolding Giveaway_findOne_def
  by (auto simp: find_Some_iff)

lemma Giveaway_findOne_insert [simp]:
  "Giveaway_findOne (Referral_insert e db gid s) c = Giveaway_findOne db c"
  by (simp add: Giveaway_findOne_def Referral_insert_def)

lemma Giveaway_findOne_update:
  "Giveaway_findOne (Giveaway_update db g) c =
     map_option (\<lambda>h. if giveaway_id h = giveaway_id g then h\<lparr>referralCount := referralCount g\<rparr> else h)
       (Giveaway_findOne db c)"
  by (simp add: Giveaway_findOne_def Giveaway_update_def find_map_preserving)





lemma post_join_no_fault:
  assumes "fault e = NoFault" and "Giveaway_findOne db (params_code req) = Some g"
    and "body req ''referrerName'' = Some (Str s)" and "v = SimpleVariant \<or> s \<noteq> []"
  shows "post_join v e db req =
           (Giveaway_update (Referral_insert e db (giveaway_id g) s)
              (g\<lparr>referralCount := referralCount g + 1\<rparr>),
            Redirect (channelLink g))"
  using assms
  by (auto simp: post_join_def Referral_create_def Giveaway_save_def)

lemma join_admissibleE:
  assumes "join_admissible v db req"
  obtains g s where "Giveaway_findOne db (params_code req) = Some g"
    and "body req ''referrerName'' = Some (Str s)" and "v = SimpleVariant \<or> s \<noteq> []"
  using assms
  by (auto simp: join_admissible_def name_admissible_def split: option.splits form_value.splits)

lemma giveaways_Referral_insert [simp]:
  "giveaways (Referral_insert e db gid s) = giveaways db"
  by (simp add: Referral_insert_def)

lemma referrals_Giveaway_update [simp]:
  "referrals (Giveaway_update db g) = referrals db"
  by (simp add: Giveaway_update_def)

lemma referrals_of_Giveaway_update [simp]:
  "referrals_of (Giveaway_update db g) i = referrals_of db i"
  by (simp add: referrals_of_def)

lemma length_referrals_insert [simp]:
  "length (referrals (Referral_insert e db gid s)) = length (referrals db) + 1"
  by (simp add: Referral_insert_def)

lemma length_referrals_of_insert:
  "length (referrals_of (Referral_insert e db gid s) i) =
     length (referrals_of db i) + (if i = gid then 1 else 0)"
  by (simp add: referrals_of_def Referral_insert_def)

lemma giveaways_Giveaway_update:
  "giveaways (Giveaway_update db g) =
     map (\<lambda>h. if giveaway_id h = giveaway_id g then h\<lparr>referralCount := referralCount g\<rparr> else h)
       (giveaways db)"
  by (simp add: Giveaway_update_def)

lemma count_consistent_join:
  assumes "count_consistent db" and "g \<in> set (giveaways db)"
  shows "count_consistent
           (Giveaway_update (Referral_insert e db (giveaway_id g) s)
              (g\<lparr>referralCount := referralCount g + 1\<rparr>))"
proof -
  let ?db' = "Giveaway_update (Referral_insert e db (giveaway_id g) s)
                (g\<lparr>referralCount := referralCount g + 1\<rparr>)"
  have old: "referralCount h = int (length (referrals_of db (giveaway_id h)))"
    if "h \<in> set (giveaways db)" for h
    using that assms(1) by (simp add: count_consistent_def list_all_iff)
  have "referralCount h' = int (length (referrals_of ?db' (giveaway_id h')))"
    if "h' \<in> set (giveaways ?db')" for h'
  proof -
    from that obtain h where h: "h \<in> set (giveaways db)"
      and h': "h' = (if giveaway_id h = giveaway_id g
                     then h\<lparr>referralCount := referralCount g + 1\<rparr> else h)"
      by (auto simp: giveaways_Giveaway_update)
    show ?thesis
    proof (cases "giveaway_id h = giveaway_id g")
      case True
      with h' old [OF assms(2)] show ?thesis
        by (simp add: length_referrals_of_insert)
    next
      case False
      with h' old [OF h] show ?thesis
        by (simp add: length_referrals_of_insert)
    qed
  qed
  then show ?thesis
    by (simp add: count_consistent_def list_all_iff)
qed

lemma post_join_succeeds:
  assumes "join_succeeds v e db req"
  obtains g s where "Giveaway_findOne db (params_code req) = Some g"
    and "body req ''referrerName'' = Some (Str s)"
    and "post_join v e db req =
           (Giveaway_update (Referral_insert e db (giveaway_id g) s)
              (g\<lparr>referralCount := referralCount g + 1\<rparr>),
            Redirect (channelLink g))"
proof -
  from assms have nf: "fault e = NoFault" and adm: "join_admissible v db req"
    by (simp_all add: join_succeeds_def)
  from adm obtain g s where f: "Giveaway_findOne db (params_code req) = Some g"
    and b: "body req ''referrerName'' = Some (Str s)" and ok: "v = SimpleVariant \<or> s \<noteq> []"
    by (rule join_admissibleE)
  from post_join_no_fault [OF nf f b ok] f b that show thesis by blast
qed

lemma count_consistent_post_join:
  assumes "count_consistent db" and "join_succeeds v e db req"
  shows "count_consistent (fst (post_join v e db req))"
proof -
  from assms(2) obtain g s where f: "Giveaway_findOne db (params_code req) = Some g"
    and p: "post_join v e db req =
           (Giveaway_update (Referral_insert e db (giveaway_id g) s)
              (g\<lparr>referralCount := referralCount g + 1\<rparr>),
            Redirect (channelLink g))"
    by (rule post_join_succeeds)
  from f have "g \<in> set (giveaways db)"
    using Giveaway_findOne_in_table by blast
  with assms(1) p show ?thesis
    by (simp add: count_consistent_join)
qed

lemma length_referrals_post_join:
  assumes "join_succeeds v e db req"
  shows "length (referrals (fst (post_join v e db req))) = length (referrals db) + 1"
proof -
  from assms obtain g s where 
    p: "post_join v e db req =
           (Giveaway_update (Referral_insert e db (giveaway_id g) s)
              (g\<lparr>referralCount := referralCount g + 1\<rparr>),
            Redirect (channelLink g))"
    by (rule post_join_succeeds)
  then show ?thesis by simp
qed

lemma referrals_Referral_insert:
  "referrals (Referral_insert e db gid s) =
     referrals db @ [\<lparr>referral_id = nextReferralId db, referrerName = s,
                      timestamp = clock e, giveawayId = Some gid\<rparr>]"
  by (simp add: Referral_insert_def)

lemma nextReferralId_step [simp]:
  "nextReferralId (Giveaway_update (Referral_insert e db gid s) g) = nextReferralId db + 1"
  by (simp add: Referral_insert_def Giveaway_update_def)

lemma Giveaway_findOne_after_join:
  assumes "Giveaway_findOne db c = Some g"
  shows "Giveaway_findOne
           (Giveaway_update (Referral_insert e db (giveaway_id g) s)
              (g\<lparr>referralCount := referralCount g + 1\<rparr>)) c =
         Some (g\<lparr>referralCount := referralCount g + 1\<rparr>)"
  using assms by (simp add: Giveaway_findOne_update)

text \<open>
  C1: when the counters agree with the Referral rows and join requests are handled one
  after another, each of them successful, the counters agree with the rows afterwards:
  the referralCount of every giveaway is the number of Referral rows whose giveawayId is
  its id. Every such join appends one Referral row and leaves the referralCount of the
  giveaway its code resolves to 1 higher.
\<close>

theorem referral_count_matches_rows:
  assumes "count_consistent db" and "all_joins_succeed v db reqs"
  shows "count_consistent (run_joins v db reqs) \<and>
         length (referrals (run_joins v db reqs)) = length (referrals db) + length reqs \<and>
         (\<forall>e req. join_succeeds v e db req \<longrightarrow>
            length (referrals (fst (post_join v e db req))) = length (referrals db) + 1 \<and>
            (\<exists>g. Giveaway_findOne db (params_code req) = Some g \<and>
                 Giveaway_findOne (fst (post_join v e db req)) (params_code req) =
                   Some (g\<lparr>referralCount := referralCount g + 1\<rparr>)))"
proof -
  have one: "length (referrals (fst (post_join v e db req))) = length (referrals db) + 1 \<and>
            (\<exists>g. Giveaway_findOne db (params_code req) = Some g \<and>
                 Giveaway_findOne (fst (post_join v e db req)) (params_code req) =
                   Some (g\<lparr>referralCount := referralCount g + 1\<rparr>))"
    if "join_succeeds v e db req" for e req
  proof -
    from that obtain g s where f: "Giveaway_findOne db (params_code req) = Some g"
      and p: "post_join v e db req =
           (Giveaway_update (Referral_insert e db (giveaway_id g) s)
              (g\<lparr>referralCount := referralCount g + 1\<rparr>),
            Redirect (channelLink g))"
      by (rule post_join_succeeds)
    from f p Giveaway_findOne_after_join [OF f] length_referrals_post_join [OF that]
    show ?thesis by simp
  qed
  have "count_consistent (run_joins v db reqs) \<and>
         length (referrals (run_joins v db reqs)) = length (referrals db) + length reqs"
    using assms
  proof (induction reqs arbitrary: db)
    case Nil
    then show ?case by simp
  next
    case (Cons a reqs)
    obtain e req where a: "a = (e, req)" by (cases a)
    from Cons.prems a have ok: "join_succeeds v e db req"
      and rest: "all_joins_succeed v (fst (post_join v e db req)) reqs"
      by simp_all
    have c: "count_consistent (fst (post_join v e db req))"
      using Cons.prems(1) ok by (rule count_consistent_post_join)
    from Cons.IH [OF c rest] length_referrals_post_join [OF ok] a
    show ?case by simp
  qed
  with one show ?thesis by blast
qed

theorem referral_count_matches_rows_witness:
  "count_consistent example_db \<and>
   all_joins_succeed SessionVariant example_db two_joins \<and>
   count_consistent (run_joins SessionVariant example_db two_joins) \<and>
   length (referrals (run_joins SessionVariant example_db two_joins)) = 2 \<and>
   map referralCount (giveaways (run_joins SessionVariant example_db two_joins)) = [2, 0]"
proof -
  have h1: "count_consistent example_db"
    by code_simp
  have h2: "all_joins_succeed SessionVariant example_db two_joins"
    by code_simp
  have h3: "map referralCount (giveaways (run_joins SessionVariant example_db two_joins)) = [2, 0]"
    by code_simp
  have h4: "length (referrals example_db) + length two_joins = 2"
    by (simp add: example_db_def two_joins_def)
  from referral_count_matches_rows [OF h1 h2] h1 h2 h3 h4 show ?thesis
    by simp
qed

section \<open>The two writes of a join\<close>




section \<open>Validation of the referrer name\<close>

text \<open>
  C5, as stated, fails: in the session variant a name of three spaces is recorded like
  any other name. A Referral row is created, the referralCount of Room A goes from 0 to
  1 and the visitor is redirected to the channel.
\<close>

theorem blank_name_recorded_counterexample:
  "referrals (fst (post_join SessionVariant example_env example_db
                     (join_request (Some (Str ''   ''))))) =
     [\<lparr>referral_id = 1, referrerName = ''   '', timestamp = 1000, giveawayId = Some 1\<rparr>] \<and>
   referrals example_db = [] \<and>
   map referralCount (giveaways (fst (post_join SessionVariant example_env example_db
                     (join_request (Some (Str ''   '')))))) = [1, 0] \<and>
   map referralCount (giveaways example_db) = [0, 0] \<and>
   snd (post_join SessionVariant example_env example_db (join_request (Some (Str ''   '')))) =
     Redirect ''https://t.me/room_a''"
  by (simp add: post_join_def example_env_def example_db_def
      join_request_def Giveaway_findOne_def room_a_def room_b_def Referral_create_def
      Referral_insert_def Giveaway_save_def Giveaway_update_def)

lemma post_join_falsy:
  assumes "v \<noteq> SimpleVariant" and "falsy (body req ''referrerName'')"
  shows "fst (post_join v e db req) = db"
    and "fault e \<noteq> FindFails \<Longrightarrow> Giveaway_findOne db (params_code req) \<noteq> None \<Longrightarrow>
         snd (post_join v e db req) = Redirect (''/giveaway/'' @ params_code req @ ''/join'')"
  using assms by (auto simp: post_join_def split: option.splits)

text \<open>
  C5, amended: in the session variant (\<^verbatim>\<open>app.js\<close>) and the token variant
  (\<^verbatim>\<open>server.js\<close>), a join request whose referrerName is missing or the empty string
  changes nothing in the database, and when the code resolves the caller is redirected
  back to the join form. A name that is not empty, of whitespace only or not, is
  recorded: with no storage failure its Referral row is appended and the caller is
  redirected to the channelLink.
\<close>

theorem empty_name_reprompts:
  assumes "v \<noteq> SimpleVariant"
  shows "(body req ''referrerName'' = None \<or> body req ''referrerName'' = Some (Str []) \<longrightarrow>
            fst (post_join v e db req) = db \<and>
            (fault e \<noteq> FindFails \<and> Giveaway_findOne db (params_code req) \<noteq> None \<longrightarrow>
               snd (post_join v e db req) =
                 Redirect (''/giveaway/'' @ params_code req @ ''/join''))) \<and>
         (body req ''referrerName'' = Some (Str s) \<and> s \<noteq> [] \<and> fault e = NoFault \<and>
          Giveaway_findOne db (params_code req) = Some g \<longrightarrow>
            referrals (fst (post_join v e db req)) =
              referrals db @ [\<lparr>referral_id = nextReferralId db, referrerName = s,
                               timestamp = clock e, giveawayId = Some (giveaway_id g)\<rparr>] \<and>
            snd (post_join v e db req) = Redirect (channelLink g))"
proof -
  have a: "fst (post_join v e db req) = db \<and>
            (fault e \<noteq> FindFails \<and> Giveaway_findOne db (params_code req) \<noteq> None \<longrightarrow>
               snd (post_join v e db req) =
                 Redirect (''/giveaway/'' @ params_code req @ ''/join''))"
    if "body req ''referrerName'' = None \<or> body req ''referrerName'' = Some (Str [])"
  proof -
    from that have "falsy (body req ''referrerName'')" by auto
    with assms post_join_falsy [of v req e db] show ?thesis by blast
  qed
  have b: "referrals (fst (post_join v e db req)) =
              referrals db @ [\<lparr>referral_id = nextReferralId db, referrerName = s,
                               timestamp = clock e, giveawayId = Some (giveaway_id g)\<rparr>] \<and>
            snd (post_join v e db req) = Redirect (channelLink g)"
    if "body req ''referrerName'' = Some (Str s)" and "s \<noteq> []" and "fault e = NoFault"
      and "Giveaway_findOne db (params_code req) = Some g"
  proof -
    from that(2) have ok: "v = SimpleVariant \<or> s \<noteq> []" by simp
    from post_join_no_fault [OF that(3) that(4) that(1) ok] show ?thesis
      by (simp add: referrals_Referral_insert)
  qed
  from a b show ?thesis by blast
qed

theorem empty_name_reprompts_witness:
  "TokenVariant \<noteq> SimpleVariant \<and>
   body (join_request (Some (Str []))) ''referrerName'' = Some (Str []) \<and>
   fault example_env \<noteq> FindFails \<and>
   Giveaway_findOne example_db (params_code (join_request (Some (Str [])))) \<noteq> None \<and>
   fst (post_join TokenVariant example_env example_db (join_request (Some (Str [])))) = example_db \<and>
   snd (post_join TokenVariant example_env example_db (join_request (Some (Str [])))) =
     Redirect ''/giveaway/c1/join'' \<and>
   body (join_request None) ''referrerName'' = None \<and>
   fst (post_join TokenVariant example_env example_db (join_request None)) = example_db \<and>
   body (join_request (Some (Str ''   ''))) ''referrerName'' = Some (Str ''   '') \<and>
   Giveaway_findOne example_db (params_code (join_request (Some (Str ''   '')))) = Some room_a \<and>
   map referrerName (referrals (fst (post_join TokenVariant example_env example_db
                                       (join_request (Some (Str ''   '')))))) = [''   '']"
proof -
  have v: "TokenVariant \<noteq> SimpleVariant" by simp
  have h1: "body (join_request (Some (Str []))) ''referrerName'' = Some (Str [])"
    "body (join_request None) ''referrerName'' = None"
    "body (join_request (Some (Str ''   ''))) ''referrerName'' = Some (Str ''   '')"
    by (simp_all add: join_request_def)
  have h2: "fault example_env \<noteq> FindFails" "fault example_env = NoFault"
    by (simp_all add: example_env_def)
  have c: "params_code (join_request x) = ''c1''" for x
    by (simp add: join_request_def)
  have h3: "Giveaway_findOne example_db ''c1'' = Some room_a"
    by (simp add: Giveaway_findOne_def example_db_def room_a_def)
  have r: "referrals example_db = []" by (simp add: example_db_def)
  from empty_name_reprompts [OF v, where req = "join_request (Some (Str []))"
      and e = example_env and db = example_db]
    empty_name_reprompts [OF v, where req = "join_request None"
      and e = example_env and db = example_db]
    empty_name_reprompts [OF v, where req = "join_request (Some (Str ''   ''))"
      and s = "''   ''" and e = example_env and db = example_db and g = room_a]
    h1 h2 h3 c r
  show ?thesis by simp
qed

section \<open>Creating a giveaway\<close>

lemma resolve_example:
  "resolve_identity SessionVariant example_env example_sessions example_db (create_request rn cl) =
     Inr 1"
  by (simp add: resolve_identity_def request_user_def passport_session_def create_request_def
      example_sessions_def example_env_def User_findByPk_def example_db_def alice_def
      ensureAuthenticated_def)

text \<open>
  C9, as stated, fails: alice's request with the empty string as roomName is accepted.
  The Giveaway is persisted with the empty room name and she is redirected to the
  dashboard.
\<close>

theorem empty_room_name_persisted_counterexample:
  "body (create_request (Some (Str [])) (Some (Str ''https://t.me/x''))) ''roomName'' =
     Some (Str []) \<and>
   giveaways (fst (post_create_giveaway SessionVariant example_env example_sessions example_db
                     (create_request (Some (Str [])) (Some (Str ''https://t.me/x''))))) =
     [room_a, room_b,
      \<lparr>giveaway_id = 3, roomName = [], channelLink = ''https://t.me/x'', code = ''c3'',
       referralCount = 0, ownerId = Some 1\<rparr>] \<and>
   snd (post_create_giveaway SessionVariant example_env example_sessions example_db
          (create_request (Some (Str [])) (Some (Str ''https://t.me/x'')))) =
     Redirect ''/dashboard''"
proof -
  let ?req = "create_request (Some (Str [])) (Some (Str ''https://t.me/x''))"
  have b: "body ?req ''roomName'' = Some (Str [])"
    "body ?req ''channelLink'' = Some (Str ''https://t.me/x'')"
    by (simp_all add: create_request_def)
  have c: "Giveaway_create example_env example_db (Some (Str [])) (Some (Str ''https://t.me/x'')) 1 =
    Inr (example_db\<lparr>giveaways := [room_a, room_b,
      \<lparr>giveaway_id = 3, roomName = [], channelLink = ''https://t.me/x'', code = ''c3'',
       referralCount = 0, ownerId = Some 1\<rparr>], nextGiveawayId := 4\<rparr>)"
    by (simp add: Giveaway_create_def example_env_def example_db_def room_a_def room_b_def)
  show ?thesis
    unfolding post_create_giveaway_def resolve_example b using c by simp
qed

lemma Giveaway_create_invalid:
  assumes "rn = None \<or> rn = Some Nested \<or> cl = None \<or> cl = Some Nested"
  shows "Giveaway_create e db rn cl uid = Inl ValidationError"
  using assms
  by (auto simp: Giveaway_create_def split: option.splits form_value.splits)

lemma Giveaway_create_strings:
  assumes "fault e \<noteq> InsertFails" and "uuidv4 e \<notin> set (map code (giveaways db))"
  shows "Giveaway_create e db (Some (Str r)) (Some (Str l)) uid =
           Inr (db\<lparr>giveaways := giveaways db @
                      [\<lparr>giveaway_id = nextGiveawayId db, roomName = r, channelLink = l,
                        code = uuidv4 e, referralCount = 0, ownerId = Some uid\<rparr>],
                    nextGiveawayId := nextGiveawayId db + 1\<rparr>)"
  using assms by (simp add: Giveaway_create_def)

lemma post_create_giveaway_unresolved:
  assumes "resolve_identity v e ss db req = Inl r"
  shows "post_create_giveaway v e ss db req = (db, r)"
  using assms by (simp add: post_create_giveaway_def)

text \<open>
  C9, amended: a createGiveaway request in which roomName or channelLink is missing from
  the body, or is not a string, persists no Giveaway; for an authenticated caller
  \<^verbatim>\<open>app.js\<close> and \<^verbatim>\<open>server.js\<close> redirect back to the creation form. When both are
  strings, empty or not, and the insert does not fail, the Giveaway is persisted with
  them and the caller is redirected to the dashboard.
\<close>

theorem missing_field_rejected:
  "(body req ''roomName'' = None \<or> body req ''roomName'' = Some Nested \<or>
    body req ''channelLink'' = None \<or> body req ''channelLink'' = Some Nested \<longrightarrow>
      fst (post_create_giveaway v e ss db req) = db \<and>
      (v \<noteq> SimpleVariant \<and> resolve_identity v e ss db req = Inr uid \<longrightarrow>
         snd (post_create_giveaway v e ss db req) = Redirect ''/create-giveaway'')) \<and>
   (body req ''roomName'' = Some (Str r) \<and> body req ''channelLink'' = Some (Str l) \<and>
    resolve_identity v e ss db req = Inr uid \<and> fault e \<noteq> InsertFails \<and>
    uuidv4 e \<notin> set (map code (giveaways db)) \<longrightarrow>
      giveaways (fst (post_create_giveaway v e ss db req)) =
        giveaways db @
          [\<lparr>giveaway_id = nextGiveawayId db, roomName = r, channelLink = l,
            code = uuidv4 e, referralCount = 0, ownerId = Some uid\<rparr>] \<and>
      snd (post_create_giveaway v e ss db req) = Redirect ''/dashboard'')"
proof -
  have a: "fst (post_create_giveaway v e ss db req) = db \<and>
      (v \<noteq> SimpleVariant \<and> resolve_identity v e ss db req = Inr uid \<longrightarrow>
         snd (post_create_giveaway v e ss db req) = Redirect ''/create-giveaway'')"
    if "body req ''roomName'' = None \<or> body req ''roomName'' = Some Nested \<or>
        body req ''channelLink'' = None \<or> body req ''channelLink'' = Some Nested"
  proof (cases "resolve_identity v e ss db req")
    case (Inl r)
    then show ?thesis by (simp add: post_create_giveaway_unresolved)
  next
    case (Inr u)
    with Giveaway_create_invalid [OF that, of e db u] show ?thesis
      by (auto simp: post_create_giveaway_def)
  qed
  have b: "giveaways (fst (post_create_giveaway v e ss db req)) =
        giveaways db @
          [\<lparr>giveaway_id = nextGiveawayId db, roomName = r, channelLink = l,
            code = uuidv4 e, referralCount = 0, ownerId = Some uid\<rparr>] \<and>
      snd (post_create_giveaway v e ss db req) = Redirect ''/dashboard''"
    if "body req ''roomName'' = Some (Str r)" and "body req ''channelLink'' = Some (Str l)"
      and "resolve_identity v e ss db req = Inr uid" and "fault e \<noteq> InsertFails"
      and "uuidv4 e \<notin> set (map code (giveaways db))"
    using that Giveaway_create_strings [OF that(4) that(5), of r l uid]
    by (simp add: post_create_giveaway_def)
  from a b show ?thesis by blast
qed

theorem missing_field_rejected_witness:
  "body (create_request None (Some (Str ''https://t.me/x''))) ''roomName'' = None \<and>
   SessionVariant \<noteq> SimpleVariant \<and>
   resolve_identity SessionVariant example_env example_sessions example_db
     (create_request None (Some (Str ''https://t.me/x''))) = Inr 1 \<and>
   post_create_giveaway SessionVariant example_env example_sessions example_db
     (create_request None (Some (Str ''https://t.me/x''))) =
     (example_db, Redirect ''/create-giveaway'') \<and>
   body (create_request (Some (Str [])) (Some (Str []))) ''roomName'' = Some (Str []) \<and>
   body (create_request (Some (Str [])) (Some (Str []))) ''channelLink'' = Some (Str []) \<and>
   fault example_env \<noteq> InsertFails \<and>
   uuidv4 example_env \<notin> set (map code (giveaways example_db)) \<and>
   map roomName (giveaways (fst (post_create_giveaway SessionVariant example_env example_sessions
          example_db (create_request (Some (Str [])) (Some (Str [])))))) =
     [''Room A'', ''Room B'', []]"
proof -
  let ?bad = "create_request None (Some (Str ''https://t.me/x''))"
  let ?empty = "create_request (Some (Str [])) (Some (Str []))"
  have h1: "body ?bad ''roomName'' = None"
    "body ?empty ''roomName'' = Some (Str [])" "body ?empty ''channelLink'' = Some (Str [])"
    by (simp_all add: create_request_def)
  have h2: "SessionVariant \<noteq> SimpleVariant" by simp
  have h3: "fault example_env \<noteq> InsertFails"
    "uuidv4 example_env \<notin> set (map code (giveaways example_db))"
    by (simp_all add: example_env_def example_db_def room_a_def room_b_def)
  have g: "map roomName (giveaways example_db) = [''Room A'', ''Room B'']"
    by (simp add: example_db_def room_a_def room_b_def)
  from missing_field_rejected [where req = ?bad and v = SessionVariant and e = example_env
      and ss = example_sessions and db = example_db and uid = 1]
    missing_field_rejected [where req = ?empty and v = SessionVariant and e = example_env
      and ss = example_sessions and db = example_db and uid = 1 and r = "[]" and l = "[]"]
    h1 h2 h3 g resolve_example
  show ?thesis by (simp add: prod_eq_iff)
qed

section \<open>Dashboard and ownership\<close>

lemma resolve_identity_body [simp]:
  "resolve_identity v e ss db (req\<lparr>body := b\<rparr>) = resolve_identity v e ss db req"
  by (simp add: resolve_identity_def authenticateJWT_def request_user_def passport_session_def)

lemma resolve_identity_simple:
  "resolve_identity SimpleVariant e ss db req = Inl (Redirect ''/login'')"
  by (simp add: resolve_identity_def request_user_def ensureAuthenticated_def)

lemma get_dashboard_resolved:
  assumes "resolve_identity v e ss db req = Inr uid" and "fault e \<noteq> FindFails"
  shows "get_dashboard v e ss db req =
           Render (Dashboard
             (map (\<lambda>g. (g, filter (\<lambda>r. giveawayId r = Some (giveaway_id g)) (referrals db)))
                (filter (\<lambda>g. ownerId g = Some uid) (giveaways db))))"
  using assms
  by (simp add: get_dashboard_def Giveaway_findAll_owned_def referrals_of_def)

lemma post_create_giveaway_owner:
  assumes "resolve_identity v e ss db req = Inr uid"
  shows "fst (post_create_giveaway v e ss db req) = db \<or>
         (\<exists>r l. giveaways (fst (post_create_giveaway v e ss db req)) =
            giveaways db @
              [\<lparr>giveaway_id = nextGiveawayId db, roomName = r, channelLink = l,
                code = uuidv4 e, referralCount = 0, ownerId = Some uid\<rparr>])"
  using assms
  by (auto simp: post_create_giveaway_def Giveaway_create_def
      split: option.splits form_value.splits)

text \<open>
  C3: for a request whose identity resolves to the id \<open>uid\<close>, the dashboard renders, in
  table order, the giveaways whose ownerId is \<open>uid\<close> and no giveaway of another owner,
  each paired with the Referral rows whose giveawayId is its id and no other row.
  Creating a giveaway either persists nothing or appends one Giveaway whose ownerId is
  \<open>uid\<close>; an \<^verbatim>\<open>ownerId\<close> field in the body changes nothing.
\<close>

theorem owner_sees_own_giveaways:
  assumes "resolve_identity v e ss db req = Inr uid"
  shows "(fault e \<noteq> FindFails \<longrightarrow>
            (\<exists>rows. get_dashboard v e ss db req = Render (Dashboard rows) \<and>
               rows =
                 map (\<lambda>g. (g, filter (\<lambda>r. giveawayId r = Some (giveaway_id g)) (referrals db)))
                   (filter (\<lambda>g. ownerId g = Some uid) (giveaways db)) \<and>
               (\<forall>g. g \<in> fst ` set rows \<longleftrightarrow> g \<in> set (giveaways db) \<and> ownerId g = Some uid) \<and>
               (\<forall>g rs r. (g, rs) \<in> set rows \<longrightarrow>
                  (r \<in> set rs \<longleftrightarrow>
                     r \<in> set (referrals db) \<and> giveawayId r = Some (giveaway_id g))))) \<and>
         (fst (post_create_giveaway v e ss db req) = db \<or>
          (\<exists>r l. giveaways (fst (post_create_giveaway v e ss db req)) =
             giveaways db @
               [\<lparr>giveaway_id = nextGiveawayId db, roomName = r, channelLink = l,
                 code = uuidv4 e, referralCount = 0, ownerId = Some uid\<rparr>])) \<and>
         post_create_giveaway v e ss db (req\<lparr>body := (body req)(''ownerId'' := x)\<rparr>) =
           post_create_giveaway v e ss db req"
proof -
  let ?rows = "map (\<lambda>g. (g, filter (\<lambda>r. giveawayId r = Some (giveaway_id g)) (referrals db)))
                 (filter (\<lambda>g. ownerId g = Some uid) (giveaways db))"
  have owners: "g \<in> fst ` set ?rows \<longleftrightarrow> g \<in> set (giveaways db) \<and> ownerId g = Some uid" for g
    by (auto simp: image_iff)
  have refs: "r \<in> set rs \<longleftrightarrow> r \<in> set (referrals db) \<and> giveawayId r = Some (giveaway_id g)"
    if "(g, rs) \<in> set ?rows" for g rs r
    using that by auto
  have d: "\<exists>rows. get_dashboard v e ss db req = Render (Dashboard rows) \<and>
               rows = ?rows \<and>
               (\<forall>g. g \<in> fst ` set rows \<longleftrightarrow> g \<in> set (giveaways db) \<and> ownerId g = Some uid) \<and>
               (\<forall>g rs r. (g, rs) \<in> set rows \<longrightarrow>
                  (r \<in> set rs \<longleftrightarrow>
                     r \<in> set (referrals db) \<and> giveawayId r = Some (giveaway_id g)))"
    if "fault e \<noteq> FindFails"
    using get_dashboard_resolved [OF assms that] owners refs by blast
  have c: "post_create_giveaway v e ss db (req\<lparr>body := (body req)(''ownerId'' := x)\<rparr>) =
           post_create_giveaway v e ss db req"
    by (simp add: post_create_giveaway_def split: sum.splits)
  from d c post_create_giveaway_owner [OF assms]
  show ?thesis by blast
qed

theorem owner_sees_own_giveaways_witness:
  "resolve_identity SessionVariant example_env example_sessions busy_db dashboard_request =
     Inr 1 \<and>
   fault example_env \<noteq> FindFails \<and>
   referrals busy_db = [bob_row, carol_row, dave_row] \<and>
   get_dashboard SessionVariant example_env example_sessions busy_db dashboard_request =
     Render (Dashboard [(room_a\<lparr>referralCount := 2\<rparr>, [bob_row, dave_row])]) \<and>
   resolve_identity SessionVariant example_env example_sessions example_db
     (create_request (Some (Str ''Room C'')) (Some (Str ''https://t.me/room_c''))) = Inr 1 \<and>
   body (create_request (Some (Str ''Room C'')) (Some (Str ''https://t.me/room_c''))) ''ownerId'' =
     Some (Str ''2'') \<and>
   map ownerId (giveaways (fst (post_create_giveaway SessionVariant example_env example_sessions
          example_db (create_request (Some (Str ''Room C'')) (Some (Str ''https://t.me/room_c'')))))) =
     [Some 1, Some 2, Some 1]"
proof -
  let ?req = "create_request (Some (Str ''Room C'')) (Some (Str ''https://t.me/room_c''))"
  have h1: "resolve_identity SessionVariant example_env example_sessions busy_db
              dashboard_request = Inr 1"
    by (simp add: resolve_identity_def request_user_def passport_session_def dashboard_request_def
      example_sessions_def example_env_def User_findByPk_def busy_db_def alice_def
      ensureAuthenticated_def)
  have h2: "fault example_env \<noteq> FindFails" by (simp add: example_env_def)
  have h3: "resolve_identity SessionVariant example_env example_sessions example_db ?req = Inr 1"
    by (rule resolve_example)
  have h4: "body ?req ''ownerId'' = Some (Str ''2'')"
    by (simp add: create_request_def)
  have rs: "referrals busy_db = [bob_row, carol_row, dave_row]"
    by (simp add: busy_db_def)
  have o: "map (\<lambda>g. (g, filter (\<lambda>r. giveawayId r = Some (giveaway_id g)) (referrals busy_db)))
             (filter (\<lambda>g. ownerId g = Some 1) (giveaways busy_db)) =
           [(room_a\<lparr>referralCount := 2\<rparr>, [bob_row, dave_row])]"
    by (simp add: busy_db_def room_a_def room_b_def bob_row_def carol_row_def dave_row_def)
  have g: "map ownerId (giveaways example_db) = [Some 1, Some 2]"
    by (simp add: example_db_def room_a_def room_b_def)
  have n: "fst (post_create_giveaway SessionVariant example_env example_sessions example_db ?req)
             \<noteq> example_db"
    unfolding post_create_giveaway_def h3
    by (simp add: Giveaway_create_def create_request_def example_env_def example_db_def
        room_a_def room_b_def)
  from owner_sees_own_giveaways [OF h1, where x = None] h2
  obtain rows where "get_dashboard SessionVariant example_env example_sessions busy_db
      dashboard_request = Render (Dashboard rows)"
    and "rows = map (\<lambda>g. (g, filter (\<lambda>r. giveawayId r = Some (giveaway_id g)) (referrals busy_db)))
             (filter (\<lambda>g. ownerId g = Some 1) (giveaways busy_db))"
    by blast
  with o have d: "get_dashboard SessionVariant example_env example_sessions busy_db
             dashboard_request = Render (Dashboard [(room_a\<lparr>referralCount := 2\<rparr>, [bob_row, dave_row])])"
    by simp
  from owner_sees_own_giveaways [OF h3, where x = None] n
  obtain r l where "giveaways (fst (post_create_giveaway SessionVariant example_env
      example_sessions example_db ?req)) =
    giveaways example_db @
      [\<lparr>giveaway_id = nextGiveawayId example_db, roomName = r, channelLink = l,
        code = uuidv4 example_env, referralCount = 0, ownerId = Some 1\<rparr>]"
    by blast
  with g have c: "map ownerId (giveaways (fst (post_create_giveaway SessionVariant example_env
      example_sessions example_db ?req))) = [Some 1, Some 2, Some 1]"
    by simp
  from h1 h2 h3 h4 rs d c show ?thesis by simp
qed

section \<open>Concurrent joins against one code\<close>

lemma filter_update_count:
  assumes "i < length ts"
  shows "length (filter P (ts[i := x])) + (if P (ts ! i) then 1 else 0) =
         length (filter P ts) + (if P x then 1 else 0)"
  using assms
proof (induction ts arbitrary: i)
  case Nil
  then show ?case by simp
next
  case (Cons t ts)
  then show ?case by (cases i) auto
qed

lemma in_range_mono:
  assumes "in_range g k x" and "k \<le> k'"
  shows "in_range g k' x"
  using assms by (simp add: in_range_def)

lemma pc_inv_mono:
  assumes "pc_inv g k pc" and "k \<le> k'"
  shows "pc_inv g k' pc"
  using assms by (cases pc) (auto intro: in_range_mono)

lemma task_inv_mono:
  assumes "task_inv v c g k t" and "k \<le> k'"
  shows "task_inv v c g k' t"
  using assms by (auto simp: task_inv_def intro: pc_inv_mono)

lemma join_inv_update:
  assumes inv: "join_inv v c g r0 (db, ts)"
    and i: "i < length ts" and ti: "ts ! i = (e, req, pc)"
    and row: "Giveaway_findOne db' c = Some row'"
      "row' = g\<lparr>referralCount := referralCount row'\<rparr>"
      "in_range g (length (filter is_finished (ts[i := (e, req, pc')]))) (referralCount row')"
      "1 \<le> length (filter is_finished (ts[i := (e, req, pc')])) \<longrightarrow>
         referralCount g + 1 \<le> referralCount row'"
    and pc': "pc_inv g (length (filter is_finished (ts[i := (e, req, pc')]))) pc'"
    and refs: "length (referrals_of db' (giveaway_id g)) =
                 r0 + length (filter has_inserted (ts[i := (e, req, pc')]))"
    and mono: "length (filter is_finished ts) \<le> length (filter is_finished (ts[i := (e, req, pc')]))"
  shows "join_inv v c g r0 (db', ts[i := (e, req, pc')])"
proof -
  let ?k = "length (filter is_finished ts)"
  let ?ts' = "ts[i := (e, req, pc')]"
  let ?k' = "length (filter is_finished ?ts')"
  from inv have all: "list_all (task_inv v c g ?k) ts"
    by (simp add: join_inv_def split: option.splits)
  with i ti have t: "task_inv v c g ?k (e, req, pc)"
    by (metis list_all_length)
  then have t': "task_inv v c g ?k' (e, req, pc')"
    using pc' by (simp add: task_inv_def)
  have "task_inv v c g ?k' u" if "u \<in> set ?ts'" for u
  proof -
    from that set_update_subset_insert [of ts i "(e, req, pc')"]
    have "u = (e, req, pc') \<or> u \<in> set ts" by auto
    then show ?thesis
    proof
      assume "u = (e, req, pc')"
      with t' show ?thesis by simp
    next
      assume "u \<in> set ts"
      with all have "task_inv v c g ?k u" by (simp add: list_all_iff)
      then show ?thesis using mono by (rule task_inv_mono)
    qed
  qed
  then have "list_all (task_inv v c g ?k') ?ts'"
    by (simp add: list_all_iff)
  with row refs show ?thesis
    by (simp add: join_inv_def)
qed

lemma join_inv_task:
  assumes "join_inv v c g r0 (db, ts)" and "i < length ts" and "ts ! i = (e, req, pc)"
  shows "fault e = NoFault" and "params_code req = c" and "name_admissible v req"
    and "pc_inv g (length (filter is_finished ts)) pc"
proof -
  from assms(1) have "list_all (task_inv v c g (length (filter is_finished ts))) ts"
    by (simp add: join_inv_def split: option.splits)
  with assms(2,3) have "task_inv v c g (length (filter is_finished ts)) (e, req, pc)"
    by (metis list_all_length)
  then show "fault e = NoFault" and "params_code req = c" and "name_admissible v req"
    and "pc_inv g (length (filter is_finished ts)) pc"
    by (simp_all add: task_inv_def)
qed

lemma join_inv_row:
  assumes "join_inv v c g r0 (db, ts)"
  obtains row where "Giveaway_findOne db c = Some row"
    and "row = g\<lparr>referralCount := referralCount row\<rparr>"
    and "in_range g (length (filter is_finished ts)) (referralCount row)"
    and "1 \<le> length (filter is_finished ts) \<longrightarrow> referralCount g + 1 \<le> referralCount row"
  using assms by (auto simp: join_inv_def split: option.splits)

lemma join_inv_refs:
  assumes "join_inv v c g r0 (db, ts)"
  shows "length (referrals_of db (giveaway_id g)) = r0 + length (filter has_inserted ts)"
  using assms by (simp add: join_inv_def split: option.splits)

lemma name_admissibleE:
  assumes "name_admissible v req"
  obtains s where "body req ''referrerName'' = Some (Str s)" and "v = SimpleVariant \<or> s \<noteq> []"
  using assms
  by (auto simp: name_admissible_def split: option.splits form_value.splits)


lemma same_row:
  assumes "s = g\<lparr>referralCount := x\<rparr>"
  shows "giveaway_id s = giveaway_id g" and "channelLink s = channelLink g"
    and "s\<lparr>referralCount := y\<rparr> = g\<lparr>referralCount := y\<rparr>"
  using assms by simp_all

lemma step_task_at:
  assumes "i < length ts" and "ts ! i = (e, req, pc)" and "join_step v e req db pc = (db', pc')"
  shows "step_task v (db, ts) i = (db', ts[i := (e, req, pc')])"
  using assms by (simp add: step_task_def)

lemma step_task_beyond:
  assumes "\<not> i < length ts"
  shows "step_task v (db, ts) i = (db, ts)"
  using assms by (simp add: step_task_def)

lemma join_inv_step:
  assumes inv: "join_inv v c g r0 (db, ts)"
  shows "join_inv v c g r0 (step_task v (db, ts) i)"
proof (cases "i < length ts")
  case False
  with inv show ?thesis by (simp add: step_task_beyond)
next
  case i: True
  obtain e req pc where ti: "ts ! i = (e, req, pc)"
    by (cases "ts ! i") auto
  let ?k = "length (filter is_finished ts)"
  note task = join_inv_task [OF inv i ti]
  from inv obtain row where row: "Giveaway_findOne db c = Some row"
    and row_eq: "row = g\<lparr>referralCount := referralCount row\<rparr>"
    and row_range: "in_range g ?k (referralCount row)"
    and row_low: "1 \<le> ?k \<longrightarrow> referralCount g + 1 \<le> referralCount row"
    by (rule join_inv_row)
  note refs = join_inv_refs [OF inv]
  from task(3) obtain s where name: "body req ''referrerName'' = Some (Str s)"
    and guard: "v = SimpleVariant \<or> s \<noteq> []"
    by (rule name_admissibleE)
  show ?thesis
  proof (cases pc)
    case Received
    let ?ts' = "ts[i := (e, req, Loaded row)]"
    have step: "join_step v e req db pc = (db, Loaded row)"
      using Received task(1,2) row name guard by auto
    have fin: "length (filter is_finished ?ts') = ?k"
      using filter_update_count [OF i, of is_finished "(e, req, Loaded row)"] ti Received
      by simp
    have ins: "length (filter has_inserted ?ts') = length (filter has_inserted ts)"
      using filter_update_count [OF i, of has_inserted "(e, req, Loaded row)"] ti Received
      by simp
    have "join_inv v c g r0 (db, ?ts')"
      using inv i ti row
    proof (rule join_inv_update)
      show "row = g\<lparr>referralCount := referralCount row\<rparr>" by (rule row_eq)
      show "in_range g (length (filter is_finished ?ts')) (referralCount row)"
        using row_range fin by simp
      show "1 \<le> length (filter is_finished ?ts') \<longrightarrow> referralCount g + 1 \<le> referralCount row"
        using row_low fin by simp
      show "pc_inv g (length (filter is_finished ?ts')) (Loaded row)"
        using row_eq row_range fin by simp
      show "length (referrals_of db (giveaway_id g)) = r0 + length (filter has_inserted ?ts')"
        using refs ins by simp
      show "?k \<le> length (filter is_finished ?ts')" using fin by simp
    qed
    with step_task_at [OF i ti step] show ?thesis by simp
  next
    case (Loaded snap)
    let ?db' = "Referral_insert e db (giveaway_id snap) s"
    let ?ts' = "ts[i := (e, req, Inserted snap)]"
    from task(4) Loaded have snap_eq: "snap = g\<lparr>referralCount := referralCount snap\<rparr>"
      and snap_range: "in_range g ?k (referralCount snap)"
      by simp_all
    note snap_row = same_row [OF snap_eq]
    have step: "join_step v e req db pc = (?db', Inserted snap)"
      using Loaded task(1) name by (simp add: Referral_create_def)
    have fin: "length (filter is_finished ?ts') = ?k"
      using filter_update_count [OF i, of is_finished "(e, req, Inserted snap)"] ti Loaded
      by simp
    have ins: "length (filter has_inserted ?ts') = length (filter has_inserted ts) + 1"
      using filter_update_count [OF i, of has_inserted "(e, req, Inserted snap)"] ti Loaded
      by simp
    have row': "Giveaway_findOne ?db' c = Some row"
      using row by simp
    have "join_inv v c g r0 (?db', ?ts')"
      using inv i ti row'
    proof (rule join_inv_update)
      show "row = g\<lparr>referralCount := referralCount row\<rparr>" by (rule row_eq)
      show "in_range g (length (filter is_finished ?ts')) (referralCount row)"
        using row_range fin by simp
      show "1 \<le> length (filter is_finished ?ts') \<longrightarrow> referralCount g + 1 \<le> referralCount row"
        using row_low fin by simp
      show "pc_inv g (length (filter is_finished ?ts')) (Inserted snap)"
        using snap_eq snap_range fin by simp
      show "length (referrals_of ?db' (giveaway_id g)) = r0 + length (filter has_inserted ?ts')"
        using refs ins snap_row(1) by (simp add: length_referrals_of_insert)
      show "?k \<le> length (filter is_finished ?ts')" using fin by simp
    qed
    with step_task_at [OF i ti step] show ?thesis by simp
  next
    case (Inserted snap)
    let ?snap' = "snap\<lparr>referralCount := referralCount snap + 1\<rparr>"
    let ?db' = "Giveaway_update db ?snap'"
    let ?r = "Redirect (channelLink g)"
    let ?ts' = "ts[i := (e, req, Finished ?r)]"
    let ?row' = "g\<lparr>referralCount := referralCount snap + 1\<rparr>"
    from task(4) Inserted have snap_eq: "snap = g\<lparr>referralCount := referralCount snap\<rparr>"
      and snap_range: "in_range g ?k (referralCount snap)"
      by simp_all
    note snap_row = same_row [OF snap_eq]
    note row_row = same_row [OF row_eq]
    have step: "join_step v e req db pc = (?db', Finished ?r)"
      using Inserted task(1) snap_row(2) by (simp add: Giveaway_save_def)
    have fin: "length (filter is_finished ?ts') = ?k + 1"
      using filter_update_count [OF i, of is_finished "(e, req, Finished ?r)"] ti Inserted
      by simp
    have ins: "length (filter has_inserted ?ts') = length (filter has_inserted ts)"
      using filter_update_count [OF i, of has_inserted "(e, req, Finished ?r)"] ti Inserted
      by simp
    have row': "Giveaway_findOne ?db' c = Some ?row'"
      using row row_row(1) snap_row(1) row_row(3) [of "referralCount snap + 1"]
      by (simp add: Giveaway_findOne_update)
    have "join_inv v c g r0 (?db', ?ts')"
      using inv i ti row'
    proof (rule join_inv_update)
      show "?row' = g\<lparr>referralCount := referralCount ?row'\<rparr>" by simp
      show "in_range g (length (filter is_finished ?ts')) (referralCount ?row')"
        using snap_range fin by (simp add: in_range_def)
      show "1 \<le> length (filter is_finished ?ts') \<longrightarrow> referralCount g + 1 \<le> referralCount ?row'"
        using snap_range by (simp add: in_range_def)
      show "pc_inv g (length (filter is_finished ?ts')) (Finished ?r)"
        by simp
      show "length (referrals_of ?db' (giveaway_id g)) = r0 + length (filter has_inserted ?ts')"
        using refs ins by simp
      show "?k \<le> length (filter is_finished ?ts')" using fin by simp
    qed
    with step_task_at [OF i ti step] show ?thesis by simp
  next
    case (Finished r)
    have step: "join_step v e req db pc = (db, Finished r)"
      using Finished by simp
    have "ts[i := (e, req, Finished r)] = ts"
      using ti Finished by (metis list_update_id)
    with step_task_at [OF i ti step] inv show ?thesis by simp
  qed
qed

lemma join_inv_run:
  assumes "join_inv v c g r0 s"
  shows "join_inv v c g r0 (run_schedule v s sched)"
  using assms unfolding run_schedule_def
proof (induction sched arbitrary: s)
  case Nil
  then show ?case by simp
next
  case (Cons i sched)
  obtain db ts where s: "s = (db, ts)" by (cases s)
  with Cons.prems have "join_inv v c g r0 (step_task v (db, ts) i)"
    by (simp add: join_inv_step)
  with Cons.IH s show ?case by simp
qed


lemma length_step_task [simp]:
  "length (snd (step_task v s i)) = length (snd s)"
  by (cases s) (simp add: step_task_def split: prod.splits)

lemma length_run_schedule [simp]:
  "length (snd (run_schedule v s sched)) = length (snd s)"
  unfolding run_schedule_def
  by (induction sched arbitrary: s) simp_all

lemma filter_arrivals [simp]:
  "filter is_finished (arrivals reqs) = []" "filter has_inserted (arrivals reqs) = []"
  by (induction reqs) (auto simp: arrivals_def)

lemma join_inv_arrivals:
  assumes "Giveaway_findOne db c = Some g"
    and "\<forall>(e, req) \<in> set reqs. fault e = NoFault \<and> params_code req = c \<and> name_admissible v req"
  shows "join_inv v c g (length (referrals_of db (giveaway_id g))) (db, arrivals reqs)"
proof -
  have "list_all (task_inv v c g 0) (arrivals reqs)"
    using assms(2) by (auto simp: list_all_iff arrivals_def task_inv_def)
  with assms(1) show ?thesis
    by (simp add: join_inv_def in_range_def)
qed

lemma all_finished_count:
  assumes "list_all is_finished ts"
  shows "length (filter is_finished ts) = length ts"
  using assms by (induction ts) auto

lemma finished_has_inserted:
  assumes "list_all is_finished ts"
  shows "length (filter has_inserted ts) = length ts"
  using assms
proof (induction ts)
  case Nil
  then show ?case by simp
next
  case (Cons t ts)
  obtain e req pc where "t = (e, req, pc)" by (cases t) auto
  with Cons show ?case by (cases pc) auto
qed

lemma join_inv_finished:
  assumes inv: "join_inv v c g r0 (db, ts)" and fin: "list_all is_finished ts"
  shows "list_all (\<lambda>(e, req, pc). pc = Finished (Redirect (channelLink g))) ts"
    and "length (referrals_of db (giveaway_id g)) = r0 + length ts"
    and "\<exists>k. Giveaway_findOne db c = Some (g\<lparr>referralCount := referralCount g + int k\<rparr>) \<and>
             k \<le> length ts \<and> (ts \<noteq> [] \<longrightarrow> 1 \<le> k)"
proof -
  let ?k = "length (filter is_finished ts)"
  have k: "?k = length ts" using fin by (rule all_finished_count)
  from inv have all: "list_all (task_inv v c g ?k) ts"
    by (simp add: join_inv_def split: option.splits)
  show "list_all (\<lambda>(e, req, pc). pc = Finished (Redirect (channelLink g))) ts"
    unfolding list_all_iff
  proof
    fix t assume t: "t \<in> set ts"
    obtain e req pc where tt: "t = (e, req, pc)" by (cases t) auto
    from t fin have "is_finished t" by (simp add: list_all_iff)
    with tt obtain r where pc: "pc = Finished r" by (cases pc) auto
    from t all have "task_inv v c g ?k t" by (simp add: list_all_iff)
    with tt pc show "case t of (e, req, pc) \<Rightarrow> pc = Finished (Redirect (channelLink g))"
      by (simp add: task_inv_def)
  qed
  show "length (referrals_of db (giveaway_id g)) = r0 + length ts"
    using join_inv_refs [OF inv] finished_has_inserted [OF fin] by simp
  from inv obtain row where row: "Giveaway_findOne db c = Some row"
    and row_eq: "row = g\<lparr>referralCount := referralCount row\<rparr>"
    and row_range: "in_range g ?k (referralCount row)"
    and row_low: "1 \<le> ?k \<longrightarrow> referralCount g + 1 \<le> referralCount row"
    by (rule join_inv_row)
  let ?d = "nat (referralCount row - referralCount g)"
  from row_range have d: "referralCount row = referralCount g + int ?d" "?d \<le> ?k"
    unfolding in_range_def by linarith+
  from row_low have low: "1 \<le> ?k \<longrightarrow> 1 \<le> ?d" by linarith
  from row row_eq d(1) have "Giveaway_findOne db c = Some (g\<lparr>referralCount := referralCount g + int ?d\<rparr>)"
    by simp
  moreover have "?d \<le> length ts" using d(2) k by simp
  moreover have "ts \<noteq> [] \<longrightarrow> 1 \<le> ?d"
    using low k by (cases ts) simp_all
  ultimately show "\<exists>k. Giveaway_findOne db c = Some (g\<lparr>referralCount := referralCount g + int k\<rparr>) \<and>
             k \<le> length ts \<and> (ts \<noteq> [] \<longrightarrow> 1 \<le> k)"
    by blast
qed

lemma run_schedule_append:
  "run_schedule v s (xs @ ys) = run_schedule v (run_schedule v s xs) ys"
  by (simp add: run_schedule_def)

lemma run_schedule_Nil [simp]: "run_schedule v s [] = s"
  by (simp add: run_schedule_def)

lemma run_schedule_Cons:
  "run_schedule v s (i # sched) = run_schedule v (step_task v s i) sched"
  by (simp add: run_schedule_def)

lemma three_steps:
  assumes "i < length ts" and "ts ! i = (e, req, Received)"
  shows "run_schedule v (db, ts) [i, i, i] =
           (fst (post_join v e db req),
            ts[i := (e, req, Finished (snd (post_join v e db req)))])"
proof -
  obtain db1 pc1 where s1: "join_step v e req db Received = (db1, pc1)"
    by (cases "join_step v e req db Received")
  obtain db2 pc2 where s2: "join_step v e req db1 pc1 = (db2, pc2)"
    by (cases "join_step v e req db1 pc1")
  obtain db3 pc3 where s3: "join_step v e req db2 pc2 = (db3, pc3)"
    by (cases "join_step v e req db2 pc2")
  have r1: "step_task v (db, ts) i = (db1, ts[i := (e, req, pc1)])"
    using assms s1 by (simp add: step_task_at)
  have r2: "step_task v (db1, ts[i := (e, req, pc1)]) i = (db2, ts[i := (e, req, pc2)])"
    using assms(1) s2 step_task_at [of i "ts[i := (e, req, pc1)]" e req pc1 v db1 db2 pc2]
    by simp
  have r3: "step_task v (db2, ts[i := (e, req, pc2)]) i = (db3, ts[i := (e, req, pc3)])"
    using assms(1) s3 step_task_at [of i "ts[i := (e, req, pc2)]" e req pc2 v db2 db3 pc3]
    by simp
  have run: "run_schedule v (db, ts) [i, i, i] = (db3, ts[i := (e, req, pc3)])"
    by (simp add: run_schedule_Cons r1 r2 r3)
  have "(db3, pc3) = (fst (post_join v e db req), Finished (snd (post_join v e db req)))"
    using s1 s2 s3
    by (auto simp: post_join_def Let_def split: if_splits option.splits sum.splits)
  with run show ?thesis by simp
qed

lemma serial_from:
  "fst (run_schedule v (db, pre @ arrivals reqs)
          (concat (map (\<lambda>i. [i, i, i]) [length pre..<length pre + length reqs]))) =
     run_joins v db reqs"
proof (induction reqs arbitrary: db pre)
  case Nil
  then show ?case by simp
next
  case (Cons a reqs)
  obtain e req where a: "a = (e, req)" by (cases a)
  let ?i = "length pre"
  let ?ts = "pre @ arrivals (a # reqs)"
  let ?fin = "(e, req, Finished (snd (post_join v e db req)))"
  have i: "?i < length ?ts" by (simp add: arrivals_def)
  have ti: "?ts ! ?i = (e, req, Received)" using a by (simp add: arrivals_def)
  have upd: "?ts[?i := ?fin] = (pre @ [?fin]) @ arrivals reqs"
    by (simp add: arrivals_def)
  have sched: "concat (map (\<lambda>i. [i, i, i]) [?i..<?i + length (a # reqs)]) =
      [?i, ?i, ?i] @ concat (map (\<lambda>i. [i, i, i]) [length (pre @ [?fin])..<length (pre @ [?fin]) + length reqs])"
    by (simp add: upt_conv_Cons del: upt_Suc)
  have "fst (run_schedule v (db, ?ts) (concat (map (\<lambda>i. [i, i, i]) [?i..<?i + length (a # reqs)]))) =
      fst (run_schedule v (fst (post_join v e db req), (pre @ [?fin]) @ arrivals reqs)
        (concat (map (\<lambda>i. [i, i, i]) [length (pre @ [?fin])..<length (pre @ [?fin]) + length reqs])))"
    unfolding sched run_schedule_append three_steps [OF i ti] upd ..
  also have "\<dots> = run_joins v (fst (post_join v e db req)) reqs"
    by (rule Cons.IH)
  finally show ?case using a by simp
qed

lemma serial_schedule_run_joins:
  "fst (run_schedule v (db, arrivals reqs) (serial_schedule (length reqs))) = run_joins v db reqs"
  using serial_from [of v db "[]" reqs] by (simp add: serial_schedule_def)

lemma run_joins_count:
  assumes "Giveaway_findOne db c = Some g"
    and "\<forall>(e, req) \<in> set reqs. fault e = NoFault \<and> params_code req = c \<and> name_admissible v req"
  shows "Giveaway_findOne (run_joins v db reqs) c =
           Some (g\<lparr>referralCount := referralCount g + int (length reqs)\<rparr>)"
  using assms
proof (induction reqs arbitrary: db g)
  case Nil
  then show ?case by simp
next
  case (Cons a reqs)
  obtain e req where a: "a = (e, req)" by (cases a)
  with Cons.prems(2) have nf: "fault e = NoFault" and c: "params_code req = c"
    and n: "name_admissible v req"
    by simp_all
  from n obtain s where b: "body req ''referrerName'' = Some (Str s)"
    and ok: "v = SimpleVariant \<or> s \<noteq> []"
    by (rule name_admissibleE)
  let ?g1 = "g\<lparr>referralCount := referralCount g + 1\<rparr>"
  let ?db1 = "Giveaway_update (Referral_insert e db (giveaway_id g) s) ?g1"
  from Cons.prems(1) c have f: "Giveaway_findOne db (params_code req) = Some g" by simp
  have p: "fst (post_join v e db req) = ?db1"
    using post_join_no_fault [OF nf f b ok] by simp
  have f1: "Giveaway_findOne ?db1 c = Some ?g1"
    using Cons.prems(1) by (rule Giveaway_findOne_after_join)
  from Cons.prems(2) have rest:
    "\<forall>(e, req) \<in> set reqs. fault e = NoFault \<and> params_code req = c \<and> name_admissible v req"
    by simp
  from Cons.IH [OF f1 rest] a p show ?case by simp
qed

lemma Giveaway_update_idem:
  "Giveaway_update (Giveaway_update db g) g = Giveaway_update db g"
  by (simp add: Giveaway_update_def comp_def cong: if_cong)

lemma Giveaway_findOne_same_table:
  assumes "giveaways db' = giveaways db"
  shows "Giveaway_findOne db' c = Giveaway_findOne db c"
  using assms by (simp add: Giveaway_findOne_def)

lemma upt_from:
  "[n..<Suc (n + m)] = n # [Suc n..<Suc (n + m)]"
  by (simp add: upt_conv_Cons del: upt_Suc)

lemma select_phase:
  assumes "Giveaway_findOne db c = Some g"
    and "\<forall>(e, req) \<in> set reqs. fault e = NoFault \<and> params_code req = c \<and> name_admissible v req"
  shows "run_schedule v (db, pre @ arrivals reqs) [length pre..<length pre + length reqs] =
           (db, pre @ map (\<lambda>(e, req). (e, req, Loaded g)) reqs)"
  using assms(2)
proof (induction reqs arbitrary: pre)
  case Nil
  then show ?case by (simp add: arrivals_def)
next
  case (Cons a reqs)
  obtain e req where a: "a = (e, req)" by (cases a)
  with Cons.prems have nf: "fault e = NoFault" and c: "params_code req = c"
    and n: "name_admissible v req"
    and rest: "\<forall>(e, req) \<in> set reqs. fault e = NoFault \<and> params_code req = c \<and> name_admissible v req"
    by simp_all
  from n obtain s where b: "body req ''referrerName'' = Some (Str s)"
    and ok: "v = SimpleVariant \<or> s \<noteq> []"
    by (rule name_admissibleE)
  let ?ts = "pre @ (e, req, Received) # arrivals reqs"
  have ts: "pre @ arrivals (a # reqs) = ?ts" using a by (simp add: arrivals_def)
  have step: "join_step v e req db Received = (db, Loaded g)"
    using nf c assms(1) b ok by auto
  have "step_task v (db, ?ts) (length pre) = (db, (pre @ [(e, req, Loaded g)]) @ arrivals reqs)"
    using step_task_at [of "length pre" ?ts e req Received v db db "Loaded g"] step
    by simp
  moreover have "run_schedule v (db, (pre @ [(e, req, Loaded g)]) @ arrivals reqs)
      [length (pre @ [(e, req, Loaded g)])..<length (pre @ [(e, req, Loaded g)]) + length reqs] =
      (db, (pre @ [(e, req, Loaded g)]) @ map (\<lambda>(e, req). (e, req, Loaded g)) reqs)"
    using rest by (rule Cons.IH)
  ultimately show ?case
    unfolding ts using a by (simp add: upt_from run_schedule_Cons del: upt_Suc)
qed

lemma insert_phase:
  assumes "\<forall>(e, req) \<in> set reqs. fault e = NoFault \<and> params_code req = c \<and> name_admissible v req"
  shows "\<exists>db'. run_schedule v (db, pre @ map (\<lambda>(e, req). (e, req, Loaded g)) reqs)
                 [length pre..<length pre + length reqs] =
                 (db', pre @ map (\<lambda>(e, req). (e, req, Inserted g)) reqs) \<and>
               giveaways db' = giveaways db \<and>
               length (referrals_of db' (giveaway_id g)) =
                 length (referrals_of db (giveaway_id g)) + length reqs"
  using assms
proof (induction reqs arbitrary: pre db)
  case Nil
  then show ?case by simp
next
  case (Cons a reqs)
  obtain e req where a: "a = (e, req)" by (cases a)
  with Cons.prems have nf: "fault e = NoFault"
    and n: "name_admissible v req"
    and rest: "\<forall>(e, req) \<in> set reqs. fault e = NoFault \<and> params_code req = c \<and> name_admissible v req"
    by simp_all
  from n obtain s where b: "body req ''referrerName'' = Some (Str s)"
    by (rule name_admissibleE)
  let ?rest = "map (\<lambda>(e, req). (e, req, Loaded g)) reqs"
  let ?ts = "pre @ (e, req, Loaded g) # ?rest"
  let ?db1 = "Referral_insert e db (giveaway_id g) s"
  let ?pre1 = "pre @ [(e, req, Inserted g)]"
  have step: "join_step v e req db (Loaded g) = (?db1, Inserted g)"
    using nf b by (simp add: Referral_create_def)
  have first: "step_task v (db, ?ts) (length pre) = (?db1, ?pre1 @ ?rest)"
    using step_task_at [of "length pre" ?ts e req "Loaded g" v db ?db1 "Inserted g"] step
    by simp
  from Cons.IH [OF rest, of ?db1 ?pre1] obtain db' where
    run: "run_schedule v (?db1, ?pre1 @ ?rest) [length ?pre1..<length ?pre1 + length reqs] =
            (db', ?pre1 @ map (\<lambda>(e, req). (e, req, Inserted g)) reqs)"
    and gs: "giveaways db' = giveaways ?db1"
    and len: "length (referrals_of db' (giveaway_id g)) =
                length (referrals_of ?db1 (giveaway_id g)) + length reqs"
    by blast
  have "run_schedule v (db, pre @ map (\<lambda>(e, req). (e, req, Loaded g)) (a # reqs))
          [length pre..<length pre + length (a # reqs)] =
        (db', pre @ map (\<lambda>(e, req). (e, req, Inserted g)) (a # reqs))"
    using a first run by (simp add: upt_from run_schedule_Cons del: upt_Suc)
  moreover have "giveaways db' = giveaways db" using gs by simp
  moreover have "length (referrals_of db' (giveaway_id g)) =
                 length (referrals_of db (giveaway_id g)) + length (a # reqs)"
    using len by (simp add: length_referrals_of_insert)
  ultimately show ?case by blast
qed

lemma update_phase:
  assumes "\<forall>(e, req) \<in> set reqs. fault e = NoFault \<and> params_code req = c \<and> name_admissible v req"
  shows "run_schedule v (db, pre @ map (\<lambda>(e, req). (e, req, Inserted g)) reqs)
           [length pre..<length pre + length reqs] =
         (if reqs = [] then db
          else Giveaway_update db (g\<lparr>referralCount := referralCount g + 1\<rparr>),
          pre @ map (\<lambda>(e, req). (e, req, Finished (Redirect (channelLink g)))) reqs)"
  using assms
proof (induction reqs arbitrary: pre db)
  case Nil
  then show ?case by simp
next
  case (Cons a reqs)
  obtain e req where a: "a = (e, req)" by (cases a)
  with Cons.prems have nf: "fault e = NoFault"
    and rest: "\<forall>(e, req) \<in> set reqs. fault e = NoFault \<and> params_code req = c \<and> name_admissible v req"
    by simp_all
  let ?g1 = "g\<lparr>referralCount := referralCount g + 1\<rparr>"
  let ?rest = "map (\<lambda>(e, req). (e, req, Inserted g)) reqs"
  let ?ts = "pre @ (e, req, Inserted g) # ?rest"
  let ?db1 = "Giveaway_update db ?g1"
  let ?fin = "(e, req, Finished (Redirect (channelLink g)))"
  have step: "join_step v e req db (Inserted g) = (?db1, Finished (Redirect (channelLink g)))"
    using nf by (simp add: Giveaway_save_def)
  have first: "step_task v (db, ?ts) (length pre) = (?db1, (pre @ [?fin]) @ ?rest)"
    using step_task_at [of "length pre" ?ts e req "Inserted g" v db ?db1
        "Finished (Redirect (channelLink g))"] step
    by simp
  have run: "run_schedule v (?db1, (pre @ [?fin]) @ ?rest)
               [length (pre @ [?fin])..<length (pre @ [?fin]) + length reqs] =
             (?db1, (pre @ [?fin]) @
                map (\<lambda>(e, req). (e, req, Finished (Redirect (channelLink g)))) reqs)"
    using Cons.IH [OF rest, of ?db1 "pre @ [?fin]"]
    by (simp add: Giveaway_update_idem)
  show ?case
    using a first run by (simp add: upt_from run_schedule_Cons del: upt_Suc)
qed

lemma overlapping_lost_updates:
  assumes "Giveaway_findOne db c = Some g"
    and "\<forall>(e, req) \<in> set reqs. fault e = NoFault \<and> params_code req = c \<and> name_admissible v req"
    and "reqs \<noteq> []"
  shows "\<exists>db'. run_schedule v (db, arrivals reqs) (overlapping_schedule (length reqs)) =
                 (db', map (\<lambda>(e, req). (e, req, Finished (Redirect (channelLink g)))) reqs) \<and>
               Giveaway_findOne db' c = Some (g\<lparr>referralCount := referralCount g + 1\<rparr>) \<and>
               length (referrals_of db' (giveaway_id g)) =
                 length (referrals_of db (giveaway_id g)) + length reqs"
proof -
  let ?n = "length reqs"
  let ?g1 = "g\<lparr>referralCount := referralCount g + 1\<rparr>"
  have p1: "run_schedule v (db, arrivals reqs) [0..<?n] =
              (db, map (\<lambda>(e, req). (e, req, Loaded g)) reqs)"
    using select_phase [OF assms(1,2), of "[]"] by simp
  from insert_phase [OF assms(2), of db "[]" g] obtain db2 where
    p2: "run_schedule v (db, map (\<lambda>(e, req). (e, req, Loaded g)) reqs) [0..<?n] =
           (db2, map (\<lambda>(e, req). (e, req, Inserted g)) reqs)"
    and gs: "giveaways db2 = giveaways db"
    and len: "length (referrals_of db2 (giveaway_id g)) =
                length (referrals_of db (giveaway_id g)) + ?n"
    by auto
  have p3: "run_schedule v (db2, map (\<lambda>(e, req). (e, req, Inserted g)) reqs) [0..<?n] =
              (Giveaway_update db2 ?g1,
               map (\<lambda>(e, req). (e, req, Finished (Redirect (channelLink g)))) reqs)"
    using update_phase [OF assms(2), of db2 "[]" g] assms(3) by simp
  have run: "run_schedule v (db, arrivals reqs) (overlapping_schedule ?n) =
               (Giveaway_update db2 ?g1,
                map (\<lambda>(e, req). (e, req, Finished (Redirect (channelLink g)))) reqs)"
    by (simp add: overlapping_schedule_def run_schedule_append p1 p2 p3)
  have "Giveaway_findOne db2 c = Some g"
    using assms(1) Giveaway_findOne_same_table [OF gs] by simp
  then have "Giveaway_findOne (Giveaway_update db2 ?g1) c = Some ?g1"
    by (simp add: Giveaway_findOne_update)
  moreover have "length (referrals_of (Giveaway_update db2 ?g1) (giveaway_id g)) =
                 length (referrals_of db (giveaway_id g)) + ?n"
    using len by simp
  ultimately show ?thesis using run by blast
qed

lemma example_findOne_c1: "Giveaway_findOne example_db ''c1'' = Some room_a"
  by (simp add: Giveaway_findOne_def example_db_def room_a_def)

lemma fifty_joins_admissible:
  "\<forall>(e, req) \<in> set fifty_joins.
     fault e = NoFault \<and> params_code req = ''c1'' \<and> name_admissible SessionVariant req"
  by (simp add: fifty_joins_def example_env_def join_request_def name_admissible_def)

text \<open>
  C4, as stated, fails: fifty join requests for the code of Room A, scheduled so that
  every handler reads the giveaway before any handler saves it, all end with the redirect
  to the channel and leave fifty Referral rows, while the referralCount of Room A is 1.
\<close>

theorem fifty_overlapping_joins_counterexample:
  "length fifty_joins = 50 \<and>
   map (snd \<circ> snd)
     (snd (run_schedule SessionVariant (example_db, arrivals fifty_joins)
             (overlapping_schedule 50))) =
     replicate 50 (Finished (Redirect ''https://t.me/room_a'')) \<and>
   length (referrals_of
     (fst (run_schedule SessionVariant (example_db, arrivals fifty_joins)
             (overlapping_schedule 50))) 1) = 50 \<and>
   map_option referralCount (Giveaway_findOne
     (fst (run_schedule SessionVariant (example_db, arrivals fifty_joins)
             (overlapping_schedule 50))) ''c1'') = Some 1"
proof -
  have n: "length fifty_joins = 50" "fifty_joins \<noteq> []"
    by (simp_all add: fifty_joins_def)
  from overlapping_lost_updates [OF example_findOne_c1 fifty_joins_admissible n(2)]
  obtain db' where
    run: "run_schedule SessionVariant (example_db, arrivals fifty_joins) (overlapping_schedule 50) =
            (db', map (\<lambda>(e, req). (e, req, Finished (Redirect (channelLink room_a)))) fifty_joins)"
    and row: "Giveaway_findOne db' ''c1'' = Some (room_a\<lparr>referralCount := referralCount room_a + 1\<rparr>)"
    and len: "length (referrals_of db' (giveaway_id room_a)) =
                length (referrals_of example_db (giveaway_id room_a)) + length fifty_joins"
    unfolding n(1) by blast
  have fin: "map (snd \<circ> snd)
      (map (\<lambda>(e, req). (e, req, Finished (Redirect (channelLink room_a)))) fifty_joins) =
      replicate 50 (Finished (Redirect ''https://t.me/room_a''))"
    by (simp add: fifty_joins_def room_a_def)
  have r: "giveaway_id room_a = 1" "referralCount room_a = 0"
    "length (referrals_of example_db 1) = 0"
    by (simp_all add: room_a_def referrals_of_def example_db_def)
  from run row len fin n(1) r show ?thesis by simp
qed

text \<open>
  C4, amended: when \<open>n\<close> join requests for the same code, each admissible and with no
  storage failure, run concurrently under any schedule that lets all of them finish,
  every one ends with the redirect to the channelLink and \<open>n\<close> Referral rows are added
  for the giveaway. The counter does not serialize: each handler writes the count it
  read plus one, so the referralCount ends between 1 and \<open>n\<close> above its starting value.
  It ends \<open>n\<close> above when the requests run one after another, which is the sequential
  handling of the same requests, and only 1 above when every handler reads before any
  handler saves.
\<close>

theorem concurrent_joins_rows_and_counter:
  assumes "Giveaway_findOne db c = Some g"
    and "\<forall>(e, req) \<in> set reqs. fault e = NoFault \<and> params_code req = c \<and> name_admissible v req"
    and "list_all is_finished (snd (run_schedule v (db, arrivals reqs) sched))"
  shows "list_all (\<lambda>(e, req, pc). pc = Finished (Redirect (channelLink g)))
           (snd (run_schedule v (db, arrivals reqs) sched)) \<and>
         length (referrals_of (fst (run_schedule v (db, arrivals reqs) sched)) (giveaway_id g)) =
           length (referrals_of db (giveaway_id g)) + length reqs \<and>
         (\<exists>k. Giveaway_findOne (fst (run_schedule v (db, arrivals reqs) sched)) c =
                 Some (g\<lparr>referralCount := referralCount g + int k\<rparr>) \<and>
              k \<le> length reqs \<and> (reqs \<noteq> [] \<longrightarrow> 1 \<le> k)) \<and>
         fst (run_schedule v (db, arrivals reqs) (serial_schedule (length reqs))) =
           run_joins v db reqs \<and>
         Giveaway_findOne (run_joins v db reqs) c =
           Some (g\<lparr>referralCount := referralCount g + int (length reqs)\<rparr>) \<and>
         (reqs \<noteq> [] \<longrightarrow>
            Giveaway_findOne
              (fst (run_schedule v (db, arrivals reqs) (overlapping_schedule (length reqs)))) c =
              Some (g\<lparr>referralCount := referralCount g + 1\<rparr>))"
proof -
  obtain db' ts' where s: "run_schedule v (db, arrivals reqs) sched = (db', ts')"
    by (cases "run_schedule v (db, arrivals reqs) sched")
  have "length (snd (run_schedule v (db, arrivals reqs) sched)) = length (arrivals reqs)"
    by simp
  with s have len: "length ts' = length reqs"
    by (simp add: arrivals_def)
  have "join_inv v c g (length (referrals_of db (giveaway_id g))) (db, arrivals reqs)"
    using assms(1,2) by (rule join_inv_arrivals)
  then have "join_inv v c g (length (referrals_of db (giveaway_id g)))
               (run_schedule v (db, arrivals reqs) sched)"
    by (rule join_inv_run)
  then have inv: "join_inv v c g (length (referrals_of db (giveaway_id g))) (db', ts')"
    using s by simp
  from assms(3) s have fin: "list_all is_finished ts'" by simp
  note final = join_inv_finished [OF inv fin]
  have ne: "ts' \<noteq> [] \<longleftrightarrow> reqs \<noteq> []" using len by auto
  from final(3) len ne
  have k: "\<exists>k. Giveaway_findOne db' c = Some (g\<lparr>referralCount := referralCount g + int k\<rparr>) \<and>
              k \<le> length reqs \<and> (reqs \<noteq> [] \<longrightarrow> 1 \<le> k)"
    by simp
  have lost: "Giveaway_findOne
              (fst (run_schedule v (db, arrivals reqs) (overlapping_schedule (length reqs)))) c =
              Some (g\<lparr>referralCount := referralCount g + 1\<rparr>)"
    if "reqs \<noteq> []"
    using overlapping_lost_updates [OF assms(1,2) that] by auto
  from final(1,2) k len s serial_schedule_run_joins [of v db reqs]
    run_joins_count [OF assms(1,2)] lost
  show ?thesis by simp
qed

theorem concurrent_joins_rows_and_counter_witness:
  "Giveaway_findOne example_db ''c1'' = Some room_a \<and>
   list_all (\<lambda>(e, req). fault e = NoFault \<and> params_code req = ''c1'' \<and>
                          name_admissible SessionVariant req) two_joins \<and>
   list_all is_finished
     (snd (run_schedule SessionVariant (example_db, arrivals two_joins) [0, 1, 1, 0, 0, 1])) \<and>
   length (referrals_of
     (fst (run_schedule SessionVariant (example_db, arrivals two_joins) [0, 1, 1, 0, 0, 1]))
     (giveaway_id room_a)) = 2 \<and>
   Giveaway_findOne
     (fst (run_schedule SessionVariant (example_db, arrivals two_joins) [0, 1, 1, 0, 0, 1]))
     ''c1'' = Some (room_a\<lparr>referralCount := 1\<rparr>) \<and>
   Giveaway_findOne
     (fst (run_schedule SessionVariant (example_db, arrivals two_joins) (serial_schedule 2)))
     ''c1'' = Some (room_a\<lparr>referralCount := 2\<rparr>)"
proof -
  let ?run = "run_schedule SessionVariant (example_db, arrivals two_joins) [0, 1, 1, 0, 0, 1]"
  have h2': "list_all (\<lambda>(e, req). fault e = NoFault \<and> params_code req = ''c1'' \<and>
                          name_admissible SessionVariant req) two_joins"
    by (simp add: two_joins_def example_env_def join_request_def name_admissible_def)
  then have h2: "\<forall>(e, req) \<in> set two_joins. fault e = NoFault \<and> params_code req = ''c1'' \<and>
                          name_admissible SessionVariant req"
    by (simp add: list_all_iff)
  have h3: "list_all is_finished (snd ?run)"
    by code_simp
  have c: "Giveaway_findOne (fst ?run) ''c1'' = Some (room_a\<lparr>referralCount := 1\<rparr>)"
    by code_simp
  have l: "length two_joins = 2" "length (referrals_of example_db (giveaway_id room_a)) = 0"
    "referralCount room_a + 2 = 2"
    by (simp_all add: two_joins_def referrals_of_def example_db_def room_a_def)
  from concurrent_joins_rows_and_counter [OF example_findOne_c1 h2 h3] example_findOne_c1
    h2' h3 c l
  show ?thesis by simp
qed

section \<open>Duplicate submissions\<close>

lemma appended_rowsI:
  assumes "referrals db = referrals db0 @ new"
    and "list_all (\<lambda>r. referrerName r = s \<and> giveawayId r = Some (giveaway_id g)) new"
    and "map referral_id new = [nextReferralId db0..<nextReferralId db0 + length new]"
    and "nextReferralId db = nextReferralId db0 + length new"
  shows "appended_rows s g db0 db"
  using assms by (simp add: appended_rows_def)

lemma appended_rowsE:
  assumes "appended_rows s g db0 db"
  obtains new where "referrals db = referrals db0 @ new"
    and "list_all (\<lambda>r. referrerName r = s \<and> giveawayId r = Some (giveaway_id g)) new"
    and "map referral_id new = [nextReferralId db0..<nextReferralId db0 + length new]"
    and "nextReferralId db = nextReferralId db0 + length new"
proof -
  let ?new = "drop (length (referrals db0)) (referrals db)"
  from assms have "take (length (referrals db0)) (referrals db) = referrals db0"
    by (simp add: appended_rows_def Let_def)
  then have "referrals db = referrals db0 @ ?new"
    by (metis append_take_drop_id)
  with assms that [of ?new] show thesis
    by (simp add: appended_rows_def Let_def)
qed

lemma appended_rows_refl: "appended_rows s g db db"
  by (simp add: appended_rows_def)

lemma appended_rows_insert:
  assumes "appended_rows s g db0 db"
  shows "appended_rows s g db0 (Referral_insert e db (giveaway_id g) s)"
proof -
  from assms obtain new where r: "referrals db = referrals db0 @ new"
    and a: "list_all (\<lambda>r. referrerName r = s \<and> giveawayId r = Some (giveaway_id g)) new"
    and i: "map referral_id new = [nextReferralId db0..<nextReferralId db0 + length new]"
    and n: "nextReferralId db = nextReferralId db0 + length new"
    by (rule appended_rowsE)
  let ?row = "\<lparr>referral_id = nextReferralId db, referrerName = s, timestamp = clock e,
               giveawayId = Some (giveaway_id g)\<rparr>"
  show ?thesis
  proof (rule appended_rowsI [where new = "new @ [?row]"])
    show "referrals (Referral_insert e db (giveaway_id g) s) = referrals db0 @ new @ [?row]"
      using r by (simp add: Referral_insert_def)
    show "list_all (\<lambda>r. referrerName r = s \<and> giveawayId r = Some (giveaway_id g)) (new @ [?row])"
      using a by simp
    show "map referral_id (new @ [?row]) =
            [nextReferralId db0..<nextReferralId db0 + length (new @ [?row])]"
      using i n by simp
    show "nextReferralId (Referral_insert e db (giveaway_id g) s) =
            nextReferralId db0 + length (new @ [?row])"
      using n by (simp add: Referral_insert_def)
  qed
qed

lemma appended_rows_same:
  assumes "appended_rows s g db0 db" and "referrals db' = referrals db"
    and "nextReferralId db' = nextReferralId db"
  shows "appended_rows s g db0 db'"
  using assms by (simp add: appended_rows_def)

lemma appended_rows_step:
  assumes inv: "join_inv v c g r0 (db, ts)"
    and names: "\<forall>(e, req, pc) \<in> set ts. body req ''referrerName'' = Some (Str s)"
    and rows: "appended_rows s g db0 db"
  shows "appended_rows s g db0 (fst (step_task v (db, ts) i)) \<and>
         (\<forall>(e, req, pc) \<in> set (snd (step_task v (db, ts) i)).
            body req ''referrerName'' = Some (Str s))"
proof (cases "i < length ts")
  case False
  with names rows show ?thesis by (simp add: step_task_beyond)
next
  case i: True
  obtain e req pc where ti: "ts ! i = (e, req, pc)"
    by (cases "ts ! i") auto
  from i ti have "(e, req, pc) \<in> set ts" by (metis nth_mem)
  with names have name: "body req ''referrerName'' = Some (Str s)" by auto
  note task = join_inv_task [OF inv i ti]
  obtain db' pc' where step: "join_step v e req db pc = (db', pc')"
    by (cases "join_step v e req db pc")
  have st: "step_task v (db, ts) i = (db', ts[i := (e, req, pc')])"
    using i ti step by (rule step_task_at)
  have "appended_rows s g db0 db'"
  proof (cases pc)
    case Received
    with step have "db' = db"
      by (auto split: if_splits option.splits)
    with rows show ?thesis by simp
  next
    case (Loaded snap)
    with task(4) have "snap = g\<lparr>referralCount := referralCount snap\<rparr>" by simp
    then have "giveaway_id snap = giveaway_id g" by (rule same_row(1))
    with Loaded step task(1) name have "db' = Referral_insert e db (giveaway_id g) s"
      by (simp add: Referral_create_def)
    with rows show ?thesis by (simp add: appended_rows_insert)
  next
    case (Inserted snap)
    with step task(1) have "db' = Giveaway_update db (snap\<lparr>referralCount := referralCount snap + 1\<rparr>)"
      by (simp add: Giveaway_save_def)
    then have "referrals db' = referrals db" "nextReferralId db' = nextReferralId db"
      by (simp_all add: Giveaway_update_def)
    with rows show ?thesis by (rule appended_rows_same)
  next
    case (Finished r)
    with step have "db' = db" by simp
    with rows show ?thesis by simp
  qed
  moreover have "\<forall>(e, req, pc) \<in> set (ts[i := (e, req, pc')]).
                   body req ''referrerName'' = Some (Str s)"
  proof -
    have "set (ts[i := (e, req, pc')]) \<subseteq> insert (e, req, pc') (set ts)"
      by (rule set_update_subset_insert)
    with names name show ?thesis by auto
  qed
  ultimately show ?thesis using st by simp
qed

lemma appended_rows_run:
  assumes "join_inv v c g r0 s"
    and "\<forall>(e, req, pc) \<in> set (snd s). body req ''referrerName'' = Some (Str name)"
    and "appended_rows name g db0 (fst s)"
  shows "appended_rows name g db0 (fst (run_schedule v s sched))"
  using assms
proof (induction sched arbitrary: s)
  case Nil
  then show ?case by simp
next
  case (Cons i sched)
  obtain db ts where s: "s = (db, ts)" by (cases s)
  from Cons.prems s have inv: "join_inv v c g r0 (db, ts)"
    and names: "\<forall>(e, req, pc) \<in> set ts. body req ''referrerName'' = Some (Str name)"
    and rows: "appended_rows name g db0 db"
    by simp_all
  note step = appended_rows_step [OF inv names rows, of i]
  have "appended_rows name g db0 (fst (run_schedule v (step_task v (db, ts) i) sched))"
    using join_inv_step [OF inv, of i] step
    by (intro Cons.IH) simp_all
  with s show ?case by (simp add: run_schedule_Cons)
qed


lemma finished_responses:
  assumes "list_all (\<lambda>(e, req, pc). pc = x) ts"
  shows "map (snd \<circ> snd) ts = replicate (length ts) x"
  using assms by (induction ts) auto

lemma referrals_of_append_new:
  assumes "referrals db' = referrals db @ new"
    and "list_all (\<lambda>r. referrerName r = s \<and> giveawayId r = Some gid) new"
  shows "referrals_of db' gid = referrals_of db gid @ new"
proof -
  from assms(2) have "filter (\<lambda>r. giveawayId r = Some gid) new = new"
    by (simp add: list_all_iff)
  with assms(1) show ?thesis by (simp add: referrals_of_def)
qed

lemma duplicate_joins_sequential:
  assumes "Giveaway_findOne db (params_code req) = Some g"
    and "body req ''referrerName'' = Some (Str s)" and "s \<noteq> []"
    and "fault e1 = NoFault" and "fault e2 = NoFault"
  shows "snd (post_join v e1 db req) = Redirect (channelLink g) \<and>
         snd (post_join v e2 (fst (post_join v e1 db req)) req) = Redirect (channelLink g) \<and>
         referrals (run_joins v db [(e1, req), (e2, req)]) =
           referrals db @
             [\<lparr>referral_id = nextReferralId db, referrerName = s,
               timestamp = clock e1, giveawayId = Some (giveaway_id g)\<rparr>,
              \<lparr>referral_id = nextReferralId db + 1, referrerName = s,
               timestamp = clock e2, giveawayId = Some (giveaway_id g)\<rparr>] \<and>
         Giveaway_findOne (run_joins v db [(e1, req), (e2, req)]) (params_code req) =
           Some (g\<lparr>referralCount := referralCount g + 2\<rparr>)"
proof -
  let ?g1 = "g\<lparr>referralCount := referralCount g + 1\<rparr>"
  let ?db1 = "Giveaway_update (Referral_insert e1 db (giveaway_id g) s) ?g1"
  let ?g2 = "?g1\<lparr>referralCount := referralCount ?g1 + 1\<rparr>"
  let ?db2 = "Giveaway_update (Referral_insert e2 ?db1 (giveaway_id ?g1) s) ?g2"
  have ok: "v = SimpleVariant \<or> s \<noteq> []" using assms(3) by simp
  have p1: "post_join v e1 db req = (?db1, Redirect (channelLink g))"
    using post_join_no_fault [OF assms(4) assms(1) assms(2) ok] .
  have f1: "Giveaway_findOne ?db1 (params_code req) = Some ?g1"
    using assms(1) by (rule Giveaway_findOne_after_join)
  have p2: "post_join v e2 ?db1 req = (?db2, Redirect (channelLink ?g1))"
    using post_join_no_fault [OF assms(5) f1 assms(2) ok] .
  have f2: "Giveaway_findOne ?db2 (params_code req) = Some ?g2"
    using f1 by (rule Giveaway_findOne_after_join)
  have run: "run_joins v db [(e1, req), (e2, req)] = ?db2"
    using p1 p2 by simp
  have refs: "referrals ?db2 = referrals db @
             [\<lparr>referral_id = nextReferralId db, referrerName = s,
               timestamp = clock e1, giveawayId = Some (giveaway_id g)\<rparr>,
              \<lparr>referral_id = nextReferralId db + 1, referrerName = s,
               timestamp = clock e2, giveawayId = Some (giveaway_id g)\<rparr>]"
    by (simp add: referrals_Referral_insert)
  have g2: "?g2 = g\<lparr>referralCount := referralCount g + 2\<rparr>" by simp
  show ?thesis
    using p1 p2 f2 refs unfolding run g2 by simp
qed

lemma duplicate_joins_under_schedule:
  assumes f: "Giveaway_findOne db (params_code req) = Some g"
    and b: "body req ''referrerName'' = Some (Str s)" and ne: "s \<noteq> []"
    and nf: "fault e1 = NoFault" "fault e2 = NoFault"
    and fin: "list_all is_finished (snd (run_schedule v (db, arrivals [(e1, req), (e2, req)]) sched))"
  shows "map (snd \<circ> snd) (snd (run_schedule v (db, arrivals [(e1, req), (e2, req)]) sched)) =
           [Finished (Redirect (channelLink g)), Finished (Redirect (channelLink g))] \<and>
         (\<exists>r1 r2. referrals (fst (run_schedule v (db, arrivals [(e1, req), (e2, req)]) sched)) =
                    referrals db @ [r1, r2] \<and>
                  referrerName r1 = s \<and> referrerName r2 = s \<and>
                  giveawayId r1 = Some (giveaway_id g) \<and> giveawayId r2 = Some (giveaway_id g) \<and>
                  referral_id r1 = nextReferralId db \<and> referral_id r2 = nextReferralId db + 1) \<and>
         (\<exists>k. Giveaway_findOne (fst (run_schedule v (db, arrivals [(e1, req), (e2, req)]) sched))
                 (params_code req) = Some (g\<lparr>referralCount := referralCount g + int k\<rparr>) \<and>
              1 \<le> k \<and> k \<le> 2)"
proof -
  let ?reqs = "[(e1, req), (e2, req)]"
  let ?c = "params_code req"
  let ?r0 = "length (referrals_of db (giveaway_id g))"
  obtain db' ts' where s: "run_schedule v (db, arrivals ?reqs) sched = (db', ts')"
    by (cases "run_schedule v (db, arrivals ?reqs) sched")
  have "length (snd (run_schedule v (db, arrivals ?reqs) sched)) = length (arrivals ?reqs)"
    by simp
  with s have len: "length ts' = 2" by (simp add: arrivals_def)
  have adm: "name_admissible v req"
    using b ne by (simp add: name_admissible_def)
  with nf have all: "\<forall>(e, r) \<in> set ?reqs. fault e = NoFault \<and> params_code r = ?c \<and>
                       name_admissible v r"
    by simp
  have inv0: "join_inv v ?c g ?r0 (db, arrivals ?reqs)"
    using f all by (rule join_inv_arrivals)
  then have "join_inv v ?c g ?r0 (run_schedule v (db, arrivals ?reqs) sched)"
    by (rule join_inv_run)
  with s have inv: "join_inv v ?c g ?r0 (db', ts')" by simp
  from fin s have fin': "list_all is_finished ts'" by simp
  note final = join_inv_finished [OF inv fin']
  have responses: "map (snd \<circ> snd) ts' =
      [Finished (Redirect (channelLink g)), Finished (Redirect (channelLink g))]"
    using finished_responses [OF final(1)] len by (simp add: numeral_2_eq_2)
  have names: "\<forall>(e, r, pc) \<in> set (snd (db, arrivals ?reqs)).
                 body r ''referrerName'' = Some (Str s)"
    using b by (simp add: arrivals_def)
  have "appended_rows s g db (fst (run_schedule v (db, arrivals ?reqs) sched))"
    using inv0 names by (rule appended_rows_run) (simp add: appended_rows_refl)
  with s have "appended_rows s g db db'" by simp
  then obtain new where r: "referrals db' = referrals db @ new"
    and a: "list_all (\<lambda>r. referrerName r = s \<and> giveawayId r = Some (giveaway_id g)) new"
    and i: "map referral_id new = [nextReferralId db..<nextReferralId db + length new]"
    by (rule appended_rowsE)
  from referrals_of_append_new [OF r a] final(2) len have "length new = 2" by simp
  then obtain r1 r2 where new: "new = [r1, r2]"
    by (cases new; cases "tl new") auto
  from i new have ids: "referral_id r1 = nextReferralId db" "referral_id r2 = nextReferralId db + 1"
    by (simp_all add: upt_rec)
  from final(3) len obtain k where
    k: "Giveaway_findOne db' ?c = Some (g\<lparr>referralCount := referralCount g + int k\<rparr>)"
      "k \<le> 2" "1 \<le> k"
    by auto
  from responses r a new ids k s show ?thesis by auto
qed


text \<open>
  C8, as stated, fails: the two submissions of bob against the code of Room A, with both
  handlers reading the giveaway before either saves it, both end with the redirect to
  the channel and leave two Referral rows of bob, and the referralCount of Room A goes
  from 0 to 1, not 2.
\<close>

theorem duplicate_joins_overlapping_counterexample:
  "map (snd \<circ> snd)
     (snd (run_schedule SessionVariant (example_db, arrivals two_joins) [0, 1, 0, 1, 0, 1])) =
     [Finished (Redirect ''https://t.me/room_a''), Finished (Redirect ''https://t.me/room_a'')] \<and>
   map referrerName
     (referrals (fst (run_schedule SessionVariant (example_db, arrivals two_joins)
                        [0, 1, 0, 1, 0, 1]))) = [''bob'', ''bob''] \<and>
   map_option referralCount (Giveaway_findOne example_db ''c1'') = Some 0 \<and>
   map_option referralCount
     (Giveaway_findOne (fst (run_schedule SessionVariant (example_db, arrivals two_joins)
                               [0, 1, 0, 1, 0, 1])) ''c1'') = Some 1"
  by code_simp

text \<open>
  C8, amended: two submissions of the same non-empty referrer name against the same
  code, with no storage failure, each succeed independently under every schedule that
  lets both finish: each redirects the caller to the giveaway's channelLink and each
  appends its own Referral row carrying that name. Nothing deduplicates them. The
  referralCount ends 1 or 2 higher: 2 higher when the two are handled one after the
  other, each incrementing it by 1.
\<close>

theorem duplicate_joins_both_recorded:
  assumes "Giveaway_findOne db (params_code req) = Some g"
    and "body req ''referrerName'' = Some (Str s)" and "s \<noteq> []"
    and "fault e1 = NoFault" and "fault e2 = NoFault"
  shows "(list_all is_finished
            (snd (run_schedule v (db, arrivals [(e1, req), (e2, req)]) sched)) \<longrightarrow>
          map (snd \<circ> snd) (snd (run_schedule v (db, arrivals [(e1, req), (e2, req)]) sched)) =
            [Finished (Redirect (channelLink g)), Finished (Redirect (channelLink g))] \<and>
          (\<exists>r1 r2. referrals (fst (run_schedule v (db, arrivals [(e1, req), (e2, req)]) sched)) =
                     referrals db @ [r1, r2] \<and>
                   referrerName r1 = s \<and> referrerName r2 = s \<and>
                   giveawayId r1 = Some (giveaway_id g) \<and>
                   giveawayId r2 = Some (giveaway_id g) \<and>
                   referral_id r1 = nextReferralId db \<and>
                   referral_id r2 = nextReferralId db + 1) \<and>
          (\<exists>k. Giveaway_findOne
                  (fst (run_schedule v (db, arrivals [(e1, req), (e2, req)]) sched))
                  (params_code req) = Some (g\<lparr>referralCount := referralCount g + int k\<rparr>) \<and>
               1 \<le> k \<and> k \<le> 2)) \<and>
         snd (post_join v e1 db req) = Redirect (channelLink g) \<and>
         snd (post_join v e2 (fst (post_join v e1 db req)) req) = Redirect (channelLink g) \<and>
         referrals (run_joins v db [(e1, req), (e2, req)]) =
           referrals db @
             [\<lparr>referral_id = nextReferralId db, referrerName = s,
               timestamp = clock e1, giveawayId = Some (giveaway_id g)\<rparr>,
              \<lparr>referral_id = nextReferralId db + 1, referrerName = s,
               timestamp = clock e2, giveawayId = Some (giveaway_id g)\<rparr>] \<and>
         Giveaway_findOne (run_joins v db [(e1, req), (e2, req)]) (params_code req) =
           Some (g\<lparr>referralCount := referralCount g + 2\<rparr>)"
  using duplicate_joins_under_schedule [OF assms, of v sched]
    duplicate_joins_sequential [OF assms, of v]
  by blast

theorem duplicate_joins_both_recorded_witness:
  "Giveaway_findOne example_db (params_code (join_request (Some (Str ''bob'')))) = Some room_a \<and>
   body (join_request (Some (Str ''bob''))) ''referrerName'' = Some (Str ''bob'') \<and>
   fault example_env = NoFault \<and>
   list_all is_finished
     (snd (run_schedule SessionVariant (example_db, arrivals two_joins) [0, 0, 1, 0, 1, 1])) \<and>
   map (snd \<circ> snd)
     (snd (run_schedule SessionVariant (example_db, arrivals two_joins) [0, 0, 1, 0, 1, 1])) =
     [Finished (Redirect ''https://t.me/room_a''), Finished (Redirect ''https://t.me/room_a'')] \<and>
   map referrerName
     (referrals (fst (run_schedule SessionVariant (example_db, arrivals two_joins)
                        [0, 0, 1, 0, 1, 1]))) = [''bob'', ''bob''] \<and>
   map_option referralCount
     (Giveaway_findOne (fst (run_schedule SessionVariant (example_db, arrivals two_joins)
                               [0, 0, 1, 0, 1, 1])) ''c1'') = Some 1 \<and>
   snd (post_join SessionVariant example_env example_db (join_request (Some (Str ''bob'')))) =
     Redirect ''https://t.me/room_a'' \<and>
   map referrerName (referrals (run_joins SessionVariant example_db two_joins)) = [''bob'', ''bob''] \<and>
   Giveaway_findOne (run_joins SessionVariant example_db two_joins) ''c1'' =
     Some (room_a\<lparr>referralCount := 2\<rparr>)"
proof -
  let ?req = "join_request (Some (Str ''bob''))"
  let ?e2 = "example_env\<lparr>clock := 1060\<rparr>"
  let ?run = "run_schedule SessionVariant (example_db, arrivals two_joins) [0, 0, 1, 0, 1, 1]"
  have h1: "Giveaway_findOne example_db (params_code ?req) = Some room_a"
    by (simp add: Giveaway_findOne_def example_db_def join_request_def room_a_def)
  have h2: "body ?req ''referrerName'' = Some (Str ''bob'')"
    by (simp add: join_request_def)
  have h3: "''bob'' \<noteq> []" by simp
  have h4: "fault example_env = NoFault" by (simp add: example_env_def)
  have h5: "fault ?e2 = NoFault" by (simp add: example_env_def)
  have two: "two_joins = [(example_env, ?req), (?e2, ?req)]"
    by (simp add: two_joins_def)
  have h6: "list_all is_finished (snd ?run)"
    by code_simp
  have cnt: "map_option referralCount (Giveaway_findOne (fst ?run) ''c1'') = Some 1"
    by code_simp
  have c: "params_code ?req = ''c1''" by (simp add: join_request_def)
  have r: "referralCount room_a + 2 = 2" "channelLink room_a = ''https://t.me/room_a''"
    "referrals example_db = []"
    by (simp_all add: room_a_def example_db_def)
  note inst = duplicate_joins_both_recorded [OF h1 h2 h3 h4 h5, of SessionVariant
      "[0, 0, 1, 0, 1, 1]", folded two]
  from inst h6 have resp: "map (snd \<circ> snd) (snd ?run) =
      [Finished (Redirect (channelLink room_a)), Finished (Redirect (channelLink room_a))]"
    by blast
  from inst h6 obtain r1 r2 where "referrals (fst ?run) = referrals example_db @ [r1, r2]"
    and "referrerName r1 = ''bob''" and "referrerName r2 = ''bob''"
    by blast
  with r(3) have names: "map referrerName (referrals (fst ?run)) = [''bob'', ''bob'']"
    by simp
  from inst have seq: "snd (post_join SessionVariant example_env example_db ?req) =
      Redirect (channelLink room_a)"
    "referrals (run_joins SessionVariant example_db two_joins) =
       referrals example_db @
         [\<lparr>referral_id = nextReferralId example_db, referrerName = ''bob'',
           timestamp = clock example_env, giveawayId = Some (giveaway_id room_a)\<rparr>,
          \<lparr>referral_id = nextReferralId example_db + 1, referrerName = ''bob'',
           timestamp = clock ?e2, giveawayId = Some (giveaway_id room_a)\<rparr>]"
    "Giveaway_findOne (run_joins SessionVariant example_db two_joins) (params_code ?req) =
       Some (room_a\<lparr>referralCount := referralCount room_a + 2\<rparr>)"
    by blast+
  from h1 h2 h4 h6 resp names cnt seq c r show ?thesis by simp
qed

end
